theory Spec2Isabelle
  imports Complex_Main
begin

section \<open>Mention normalisation\<close>

text \<open>
  Strings are lists of 8-bit code units (Latin-1). The character classes are those of
  JavaScript regular expressions without the \<^verbatim>\<open>u\<close> flag, cut to that range:
  \<^verbatim>\<open>\s\<close> is TAB, LF, VT, FF, CR, SPACE and NBSP; a word character (for \<^verbatim>\<open>\b\<close>)
  is an ASCII letter, digit or underscore.
\<close>

datatype EntityType = PERSON | LOCATION | ORGANIZATION

definition code :: "char \<Rightarrow> nat" where
  "code c = of_char c"

definition isSpace :: "char \<Rightarrow> bool" where
  "isSpace c = (code c \<in> {9, 10, 11, 12, 13, 32, 160})"

definition isWordChar :: "char \<Rightarrow> bool" where
  "isWordChar c =
     ((48 \<le> code c \<and> code c \<le> 57) \<or> (65 \<le> code c \<and> code c \<le> 90) \<or>
      code c = 95 \<or> (97 \<le> code c \<and> code c \<le> 122))"

text \<open>\<^verbatim>\<open>String.prototype.toLowerCase\<close> on Latin-1: A-Z and the accented capitals move up by 32.\<close>

definition toLowerChar :: "char \<Rightarrow> char" where
  "toLowerChar c =
     (if (65 \<le> code c \<and> code c \<le> 90) \<or> (192 \<le> code c \<and> code c \<le> 222 \<and> code c \<noteq> 215)
      then char_of (code c + 32) else c)"

definition toLowerCase :: "string \<Rightarrow> string" where
  "toLowerCase s = map toLowerChar s"

text \<open>\<^verbatim>\<open>String.prototype.trim\<close>.\<close>

definition trim :: "string \<Rightarrow> string" where
  "trim s = rev (dropWhile isSpace (rev (dropWhile isSpace s)))"

fun startsWith :: "string \<Rightarrow> string \<Rightarrow> bool" where
  "startsWith s [] = True"
| "startsWith [] (p # ps) = False"
| "startsWith (c # cs) (p # ps) = (c = p \<and> startsWith cs ps)"

text \<open>
  The honorific pattern of \<^verbatim>\<open>normalizeMention\<close>,
  \<^verbatim>\<open>/\b(mr|mrs|ms|dr|prof|sir|madam|miss|mister|professor|judge|hon|honorable)\.?\s+/g\<close>,
  as a backtracking matcher: the alternatives are tried in the order written, the optional
  dot is tried first with the dot and then without, the whitespace run is greedy. A match is
  reported as the number of code units it covers.
\<close>

definition honorifics :: "string list" where
  "honorifics = [''mr'', ''mrs'', ''ms'', ''dr'', ''prof'', ''sir'', ''madam'', ''miss'',
     ''mister'', ''professor'', ''judge'', ''hon'', ''honorable'']"

definition matchSpaces :: "string \<Rightarrow> nat option" where
  "matchSpaces s = (let n = length (takeWhile isSpace s) in if n = 0 then None else Some n)"

definition matchDotSpaces :: "string \<Rightarrow> nat option" where
  "matchDotSpaces s =
     (case (case s of [] \<Rightarrow> None
            | c # cs \<Rightarrow> if c = CHR ''.'' then map_option Suc (matchSpaces cs) else None) of
        Some n \<Rightarrow> Some n
      | None \<Rightarrow> matchSpaces s)"

fun matchAlternatives :: "string list \<Rightarrow> string \<Rightarrow> nat option" where
  "matchAlternatives [] s = None"
| "matchAlternatives (h # hs) s =
     (if startsWith s h then
        (case matchDotSpaces (drop (length h) s) of
           Some n \<Rightarrow> Some (length h + n)
         | None \<Rightarrow> matchAlternatives hs s)
      else matchAlternatives hs s)"

text \<open>\<^verbatim>\<open>\b\<close> between the previous code unit (none at the start) and the rest of the input.\<close>

definition wordBoundary :: "char option \<Rightarrow> string \<Rightarrow> bool" where
  "wordBoundary prev s =
     ((case prev of None \<Rightarrow> False | Some p \<Rightarrow> isWordChar p) \<noteq>
      (case s of [] \<Rightarrow> False | c # cs \<Rightarrow> isWordChar c))"

definition matchHonorific :: "char option \<Rightarrow> string \<Rightarrow> nat option" where
  "matchHonorific prev s = (if wordBoundary prev s then matchAlternatives honorifics s else None)"

text \<open>
  \<^verbatim>\<open>lowered.replace(/.../g, " ")\<close>: scan from the left; a match is replaced by one space and
  the scan goes on behind it, otherwise the code unit is copied.
\<close>

fun replaceHonorifics :: "char option \<Rightarrow> string \<Rightarrow> string" where
  "replaceHonorifics prev [] = []"
| "replaceHonorifics prev (c # cs) =
     (case matchHonorific prev (c # cs) of
        Some n \<Rightarrow> CHR '' '' # replaceHonorifics (Some ((c # cs) ! (n - 1))) (drop (n - 1) cs)
      | None \<Rightarrow> c # replaceHonorifics (Some c) cs)"

text \<open>\<^verbatim>\<open>replace(/[^a-z0-9\s]/g, " ")\<close>.\<close>

definition isLowerAlnumOrSpace :: "char \<Rightarrow> bool" where
  "isLowerAlnumOrSpace c =
     ((97 \<le> code c \<and> code c \<le> 122) \<or> (48 \<le> code c \<and> code c \<le> 57) \<or> isSpace c)"

definition replaceOthers :: "string \<Rightarrow> string" where
  "replaceOthers s = map (\<lambda>c. if isLowerAlnumOrSpace c then c else CHR '' '') s"

text \<open>\<^verbatim>\<open>replace(/\s+/g, " ")\<close>.\<close>

function collapseSpaces :: "string \<Rightarrow> string" where
  "collapseSpaces [] = []"
| "collapseSpaces (c # cs) =
     (if isSpace c then CHR '' '' # collapseSpaces (dropWhile isSpace cs)
      else c # collapseSpaces cs)"
  by pat_completeness auto
termination
  by (relation "measure length") (auto simp: length_dropWhile_le less_Suc_eq_le)

definition normalizeMention :: "string \<Rightarrow> string" where
  "normalizeMention text =
     (let lowered = toLowerCase text;
          noHonorifics = replaceHonorifics None lowered;
          lettersAndDigits = replaceOthers noHonorifics
      in trim (collapseSpaces lettersAndDigits))"

text \<open>\<^verbatim>\<open>String.prototype.split\<close> with a one-character separator: empty pieces are kept.\<close>

fun split :: "char \<Rightarrow> string \<Rightarrow> string list" where
  "split d [] = [[]]"
| "split d (c # cs) =
     (if c = d then [] # split d cs
      else (case split d cs of [] \<Rightarrow> [[c]] | w # ws \<Rightarrow> (c # w) # ws))"

text \<open>\<^verbatim>\<open>Set.prototype.add\<close> on a set kept in insertion order.\<close>

definition setAdd :: "'a list \<Rightarrow> 'a \<Rightarrow> 'a list" where
  "setAdd xs x = (if x \<in> set xs then xs else xs @ [x])"

definition buildKeyFingerprints :: "EntityType \<Rightarrow> string \<Rightarrow> string list" where
  "buildKeyFingerprints entityType text =
     (let norm = normalizeMention text in
      if norm = [] then []
      else
        (let set0 = [norm] in
         if entityType = PERSON \<or> entityType = ORGANIZATION then
           (let tokens = filter (\<lambda>t. t \<noteq> []) (split (CHR '' '') norm);
                lastTok = (if tokens = [] then [] else last tokens)
            in if 4 \<le> length lastTok then setAdd set0 lastTok else set0)
         else set0))"

definition keyFingerprint :: "string \<Rightarrow> string option" where
  "keyFingerprint text =
     (let norm = normalizeMention text in
      if norm = [] then None
      else
        (let parts = filter (\<lambda>t. t \<noteq> []) (split (CHR '' '') norm) in
         if length parts < 2 then None
         else
           (let lastTok = last parts in
            if length lastTok < 4 then None else Some lastTok)))"

text \<open>
  The last whitespace-delimited token of a string, read off the string itself: the code
  units behind its last whitespace.
\<close>

definition lastToken :: "string \<Rightarrow> string" where
  "lastToken s = rev (takeWhile (\<lambda>c. \<not> isSpace c) (rev s))"


section \<open>The canonical store\<close>

text \<open>
  The tables of the Prisma schema as lists of rows in insertion order, with one counter per
  id sequence. A query without \<^verbatim>\<open>orderBy\<close> reads rows in insertion order. Timestamp columns
  are left out.
\<close>

datatype Reason = exact_alias | key_fingerprint

datatype EntityCandidateStatus = PENDING | ACCEPTED | REJECTED

datatype json = JBool bool | JString string

type_synonym meta = "(string \<times> json) list"

datatype db_error = UniqueViolation | ForeignKeyViolation | RecordNotFound | ExtractionError

record CanonicalEntity =
  ce_id :: nat
  ce_entityType :: EntityType
  ce_canonicalText :: string
  ce_canonicalNormalized :: string
  ce_meta :: meta

record EntityAlias =
  ea_id :: nat
  ea_entityType :: EntityType
  ea_canonicalEntityId :: nat
  ea_aliasText :: string
  ea_aliasNormalized :: string

record Entity =
  en_id :: nat
  en_entityText :: string
  en_entityType :: EntityType
  en_normalizedText :: string
  en_canonicalText :: string
  en_aliases :: "string list"
  en_aliasFingerprints :: "string list"
  en_meta :: meta

record EntityMention =
  em_id :: nat
  em_fileId :: nat
  em_entityId :: nat
  em_canonicalEntityId :: nat
  em_aliasId :: nat
  em_mentionText :: string
  em_mentionNormalized :: string
  em_pageNumber :: "nat option"
  em_contextSnippet :: string
  em_mentionPosition :: "nat option"
  em_confidence :: rat

record EntityCandidateLink =
  cl_id :: nat
  cl_mentionId :: nat
  cl_candidateCanonicalEntityId :: nat
  cl_score :: rat
  cl_reason :: string
  cl_status :: EntityCandidateStatus

record File =
  f_id :: nat
  f_filepath :: string
  f_fullText :: "string option"
  f_entitiesExtracted :: bool

record Store =
  canonicalEntities :: "CanonicalEntity list"
  entityAliases :: "EntityAlias list"
  entities :: "Entity list"
  entityMentions :: "EntityMention list"
  entityCandidateLinks :: "EntityCandidateLink list"
  files :: "File list"
  nextCanonicalEntityId :: nat
  nextEntityAliasId :: nat
  nextEntityId :: nat
  nextEntityMentionId :: nat
  nextEntityCandidateLinkId :: nat

definition bindE :: "'e + 'a \<Rightarrow> ('a \<Rightarrow> 'e + 'b) \<Rightarrow> 'e + 'b" where
  "bindE r f = (case r of Inl e \<Rightarrow> Inl e | Inr x \<Rightarrow> f x)"

subsection \<open>Queries and writes\<close>

text \<open>
  The writes check what the schema declares: the unique indexes on
  \<^verbatim>\<open>entity_aliases(canonical_entity_id, alias_normalized)\<close> and
  \<^verbatim>\<open>entity_candidate_links(mention_id, candidate_canonical_entity_id)\<close>, and the foreign keys.
\<close>

definition canonicalEntity_create ::
  "EntityType \<Rightarrow> string \<Rightarrow> string \<Rightarrow> meta \<Rightarrow> Store \<Rightarrow> CanonicalEntity \<times> Store" where
  "canonicalEntity_create ty canonicalText canonicalNormalized m s =
     (let row = \<lparr>ce_id = nextCanonicalEntityId s, ce_entityType = ty,
                 ce_canonicalText = canonicalText, ce_canonicalNormalized = canonicalNormalized,
                 ce_meta = m\<rparr>
      in (row, s\<lparr>canonicalEntities := canonicalEntities s @ [row],
                nextCanonicalEntityId := Suc (nextCanonicalEntityId s)\<rparr>))"

definition canonicalEntity_findUnique :: "nat \<Rightarrow> Store \<Rightarrow> CanonicalEntity option" where
  "canonicalEntity_findUnique i s = find (\<lambda>c. ce_id c = i) (canonicalEntities s)"

definition entityAlias_findFirst :: "nat \<Rightarrow> string \<Rightarrow> Store \<Rightarrow> EntityAlias option" where
  "entityAlias_findFirst cid aliasNormalized s =
     find (\<lambda>a. ea_canonicalEntityId a = cid \<and> ea_aliasNormalized a = aliasNormalized)
       (entityAliases s)"

definition entityAlias_findMany :: "EntityType \<Rightarrow> string \<Rightarrow> nat \<Rightarrow> Store \<Rightarrow> EntityAlias list" where
  "entityAlias_findMany ty aliasNormalized n s =
     take n (filter (\<lambda>a. ea_entityType a = ty \<and> ea_aliasNormalized a = aliasNormalized)
       (entityAliases s))"

definition entityAlias_create ::
  "EntityType \<Rightarrow> nat \<Rightarrow> string \<Rightarrow> string \<Rightarrow> Store \<Rightarrow> db_error + (nat \<times> Store)" where
  "entityAlias_create ty cid aliasText aliasNormalized s =
     (if \<not> (\<exists>c \<in> set (canonicalEntities s). ce_id c = cid) then Inl ForeignKeyViolation
      else if \<exists>a \<in> set (entityAliases s).
                ea_canonicalEntityId a = cid \<and> ea_aliasNormalized a = aliasNormalized
      then Inl UniqueViolation
      else Inr (nextEntityAliasId s,
        s\<lparr>entityAliases := entityAliases s @
             [\<lparr>ea_id = nextEntityAliasId s, ea_entityType = ty, ea_canonicalEntityId = cid,
               ea_aliasText = aliasText, ea_aliasNormalized = aliasNormalized\<rparr>],
          nextEntityAliasId := Suc (nextEntityAliasId s)\<rparr>))"

definition entity_findFirst :: "EntityType \<Rightarrow> string \<Rightarrow> Store \<Rightarrow> Entity option" where
  "entity_findFirst ty normalizedText s =
     find (\<lambda>e. en_entityType e = ty \<and> en_normalizedText e = normalizedText) (entities s)"

definition entity_create ::
  "string \<Rightarrow> EntityType \<Rightarrow> string \<Rightarrow> string \<Rightarrow> string list \<Rightarrow> string list \<Rightarrow> meta \<Rightarrow> Store
     \<Rightarrow> nat \<times> Store" where
  "entity_create entityText ty normalizedText canonicalText als fps m s =
     (nextEntityId s,
      s\<lparr>entities := entities s @
           [\<lparr>en_id = nextEntityId s, en_entityText = entityText, en_entityType = ty,
             en_normalizedText = normalizedText, en_canonicalText = canonicalText,
             en_aliases = als, en_aliasFingerprints = fps, en_meta = m\<rparr>],
        nextEntityId := Suc (nextEntityId s)\<rparr>)"

definition entityMention_create ::
  "nat \<Rightarrow> nat \<Rightarrow> nat \<Rightarrow> nat \<Rightarrow> string \<Rightarrow> string \<Rightarrow> nat option \<Rightarrow> string \<Rightarrow> nat option \<Rightarrow> rat
     \<Rightarrow> Store \<Rightarrow> db_error + (nat \<times> Store)" where
  "entityMention_create fileId entityId cid aliasId mText mNormalized pageNumber snippet pos conf s =
     (if \<not> (\<exists>f \<in> set (files s). f_id f = fileId) \<or>
         \<not> (\<exists>e \<in> set (entities s). en_id e = entityId) \<or>
         \<not> (\<exists>c \<in> set (canonicalEntities s). ce_id c = cid) \<or>
         \<not> (\<exists>a \<in> set (entityAliases s). ea_id a = aliasId)
      then Inl ForeignKeyViolation
      else Inr (nextEntityMentionId s,
        s\<lparr>entityMentions := entityMentions s @
             [\<lparr>em_id = nextEntityMentionId s, em_fileId = fileId, em_entityId = entityId,
               em_canonicalEntityId = cid, em_aliasId = aliasId, em_mentionText = mText,
               em_mentionNormalized = mNormalized, em_pageNumber = pageNumber,
               em_contextSnippet = snippet, em_mentionPosition = pos, em_confidence = conf\<rparr>],
          nextEntityMentionId := Suc (nextEntityMentionId s)\<rparr>))"

text \<open>Deleting mentions cascades to their candidate links.\<close>

definition entityMention_deleteMany :: "nat \<Rightarrow> Store \<Rightarrow> Store" where
  "entityMention_deleteMany fileId s =
     (let gone = map em_id (filter (\<lambda>r. em_fileId r = fileId) (entityMentions s))
      in s\<lparr>entityMentions := filter (\<lambda>r. em_fileId r \<noteq> fileId) (entityMentions s),
           entityCandidateLinks :=
             filter (\<lambda>l. cl_mentionId l \<notin> set gone) (entityCandidateLinks s)\<rparr>)"

definition entityCandidateLink_create ::
  "nat \<Rightarrow> nat \<Rightarrow> rat \<Rightarrow> string \<Rightarrow> EntityCandidateStatus \<Rightarrow> Store \<Rightarrow> db_error + Store" where
  "entityCandidateLink_create mentionId cid sc why st s =
     (if \<not> (\<exists>r \<in> set (entityMentions s). em_id r = mentionId) \<or>
         \<not> (\<exists>c \<in> set (canonicalEntities s). ce_id c = cid)
      then Inl ForeignKeyViolation
      else if \<exists>l \<in> set (entityCandidateLinks s).
                cl_mentionId l = mentionId \<and> cl_candidateCanonicalEntityId l = cid
      then Inl UniqueViolation
      else Inr (s\<lparr>entityCandidateLinks := entityCandidateLinks s @
             [\<lparr>cl_id = nextEntityCandidateLinkId s, cl_mentionId = mentionId,
               cl_candidateCanonicalEntityId = cid, cl_score = sc, cl_reason = why,
               cl_status = st\<rparr>],
          nextEntityCandidateLinkId := Suc (nextEntityCandidateLinkId s)\<rparr>))"

definition file_update_entitiesExtracted :: "nat \<Rightarrow> Store \<Rightarrow> db_error + Store" where
  "file_update_entitiesExtracted fileId s =
     (if \<exists>f \<in> set (files s). f_id f = fileId
      then Inr (s\<lparr>files := map (\<lambda>f. if f_id f = fileId then f\<lparr>f_entitiesExtracted := True\<rparr> else f)
                  (files s)\<rparr>)
      else Inl RecordNotFound)"

subsection \<open>Legacy entity and alias helpers\<close>

definition getOrCreateLegacyEntityId ::
  "EntityType \<Rightarrow> string \<Rightarrow> string \<Rightarrow> Store \<Rightarrow> nat \<times> Store" where
  "getOrCreateLegacyEntityId ty canonicalText canonicalNormalized s =
     (case entity_findFirst ty canonicalNormalized s of
        Some found \<Rightarrow> (en_id found, s)
      | None \<Rightarrow>
          entity_create canonicalText ty canonicalNormalized canonicalText [canonicalText]
            (buildKeyFingerprints ty canonicalText) [] s)"

definition upsertAlias ::
  "EntityType \<Rightarrow> nat \<Rightarrow> string \<Rightarrow> string \<Rightarrow> Store \<Rightarrow> db_error + (nat \<times> Store)" where
  "upsertAlias ty cid aliasText aliasNormalized s =
     (case entityAlias_findFirst cid aliasNormalized s of
        Some existing \<Rightarrow> Inr (ea_id existing, s)
      | None \<Rightarrow> entityAlias_create ty cid aliasText aliasNormalized s)"


section \<open>Candidate matcher\<close>

text \<open>Decimal rendering of an id or position inside a template string.\<close>

definition digitChar :: "nat \<Rightarrow> char" where
  "digitChar d = char_of (48 + d)"

fun showNat :: "nat \<Rightarrow> string" where
  "showNat n = (if n < 10 then [digitChar n] else showNat (n div 10) @ [digitChar (n mod 10)])"

declare showNat.simps [simp del]

record AliasCandidate =
  ac_aliasId :: nat
  ac_canonicalEntityId :: nat
  ac_reason :: Reason
  ac_score :: rat

text \<open>
  The two \<^verbatim>\<open>for\<close> loops of \<^verbatim>\<open>findAliasCandidates\<close> over the fetched rows. They share the
  \<^verbatim>\<open>seen\<close> set and differ in the suffix of the key, the reason and the score.
\<close>

fun pushCandidates ::
  "string \<Rightarrow> Reason \<Rightarrow> rat \<Rightarrow> EntityAlias list \<Rightarrow> AliasCandidate list \<times> string list
     \<Rightarrow> AliasCandidate list \<times> string list" where
  "pushCandidates suffix why sc [] (out, seen) = (out, seen)"
| "pushCandidates suffix why sc (row # rows) (out, seen) =
     (let key = showNat (ea_canonicalEntityId row) @ suffix in
      if key \<in> set seen then pushCandidates suffix why sc rows (out, seen)
      else pushCandidates suffix why sc rows
             (out @ [\<lparr>ac_aliasId = ea_id row, ac_canonicalEntityId = ea_canonicalEntityId row,
                      ac_reason = why, ac_score = sc\<rparr>],
              setAdd seen key))"

definition findAliasCandidates ::
  "string \<Rightarrow> string \<Rightarrow> EntityType \<Rightarrow> Store \<Rightarrow> AliasCandidate list" where
  "findAliasCandidates mText mNormalized ty s =
     (let exact = entityAlias_findMany ty mNormalized 20 s;
          (out, seen) = pushCandidates ''|exact'' exact_alias 1 exact ([], [])
      in if ty = PERSON \<or> ty = ORGANIZATION then
           (case keyFingerprint mText of
              None \<Rightarrow> out
            | Some key \<Rightarrow>
                if key \<noteq> [] \<and> key \<noteq> mNormalized then
                  (let keyRows = entityAlias_findMany ty key 20 s
                   in fst (pushCandidates ''|key'' key_fingerprint (3 / 5) keyRows (out, seen)))
                else out)
         else out)"

section \<open>Resolution decision engine\<close>

record MentionRow =
  mentionText :: string
  entityType :: EntityType
  mentionNormalized :: string
  mentionPosition :: "nat option"
  contextSnippet :: string

text \<open>\<^verbatim>\<open>Array.from(new Set(xs))\<close>: the first occurrence of each element, in order.\<close>

definition arrayFromSet :: "'a list \<Rightarrow> 'a list" where
  "arrayFromSet xs = foldl setAdd [] xs"

text \<open>
  The decision taken after the lookup: \<^verbatim>\<open>isAmbiguous\<close>, and otherwise
  \<^verbatim>\<open>chosenCanonicalId\<close>, which is an id or \<^verbatim>\<open>null\<close>.
\<close>

datatype Decision = DecideAmbiguous | DecideMerge nat | DecideCreate

definition decide :: "AliasCandidate list \<Rightarrow> Decision" where
  "decide candidates =
     (let exactCanonicals =
            arrayFromSet (map ac_canonicalEntityId
              (filter (\<lambda>c. ac_reason c = exact_alias) candidates));
          keyCanonicals =
            arrayFromSet (map ac_canonicalEntityId
              (filter (\<lambda>c. ac_reason c = key_fingerprint) candidates));
          isAmbiguous =
            (length exactCanonicals > 1 \<or> (length exactCanonicals = 0 \<and> length keyCanonicals > 1))
      in if isAmbiguous then DecideAmbiguous
         else if length exactCanonicals = 1 then DecideMerge (exactCanonicals ! 0)
         else if length keyCanonicals = 1 then DecideMerge (keyCanonicals ! 0)
         else DecideCreate)"

text \<open>The loop registering every fingerprint of the mention as an alias.\<close>

fun upsertFingerprints ::
  "EntityType \<Rightarrow> nat \<Rightarrow> string \<Rightarrow> string list \<Rightarrow> Store \<Rightarrow> db_error + Store" where
  "upsertFingerprints ty cid aliasText [] s = Inr s"
| "upsertFingerprints ty cid aliasText (fp # fps) s =
     bindE (upsertAlias ty cid aliasText fp s)
       (\<lambda>(_, s'). upsertFingerprints ty cid aliasText fps s')"

text \<open>The loop writing one candidate link per candidate.\<close>

fun createCandidateLinks :: "nat \<Rightarrow> AliasCandidate list \<Rightarrow> Store \<Rightarrow> db_error + Store" where
  "createCandidateLinks mentionId [] s = Inr s"
| "createCandidateLinks mentionId (c # cs) s =
     bindE (entityCandidateLink_create mentionId (ac_canonicalEntityId c) (ac_score c)
              (if ac_reason c = exact_alias then ''exact alias normalized match''
               else ''last-token fingerprint match'')
              PENDING s)
       (createCandidateLinks mentionId cs)"

text \<open>
  What the loop body did with one mention: the canonical entity the written mention row
  points to, or that the mention was skipped because the chosen entity was not found.
\<close>

datatype Resolution =
  ResolvedAmbiguous nat | ResolvedNew nat | ResolvedMerged nat | SkippedNoCanonical

definition unresolvedMeta :: meta where
  "unresolvedMeta = [(''unresolved'', JBool True), (''reason'', JString ''ambiguous_alias_match'')]"

text \<open>
  The writes every branch runs for the entity it resolved to (the created placeholder,
  the created entity or the chosen one): register the mention's normalised text and its
  fingerprints as aliases, find or create the legacy entity row, write the mention row. The
  source repeats this sequence in each of the three branches; it returns the mention id.
\<close>

definition writeResolvedMention ::
  "nat \<Rightarrow> MentionRow \<Rightarrow> CanonicalEntity \<Rightarrow> Store \<Rightarrow> db_error + (nat \<times> Store)" where
  "writeResolvedMention fileId m canonical s =
     bindE (upsertAlias (entityType m) (ce_id canonical) (mentionText m) (mentionNormalized m) s)
       (\<lambda>(aliasId, s2).
     bindE (upsertFingerprints (entityType m) (ce_id canonical) (mentionText m)
              (buildKeyFingerprints (entityType m) (mentionText m)) s2)
       (\<lambda>s3.
     let (legacyEntityId, s4) =
           getOrCreateLegacyEntityId (entityType m) (ce_canonicalText canonical)
             (ce_canonicalNormalized canonical) s3
     in entityMention_create fileId legacyEntityId (ce_id canonical) aliasId
          (mentionText m) (mentionNormalized m) None (contextSnippet m)
          (mentionPosition m) 1 s4))"

definition resolveAmbiguous ::
  "nat \<Rightarrow> MentionRow \<Rightarrow> AliasCandidate list \<Rightarrow> Store \<Rightarrow> db_error + (Resolution \<times> Store)" where
  "resolveAmbiguous fileId m candidates s =
     (let (unresolved, s1) =
            canonicalEntity_create (entityType m) (mentionText m) (mentionNormalized m)
              unresolvedMeta s
      in bindE (writeResolvedMention fileId m unresolved s1)
           (\<lambda>(mentionId, s5).
        bindE (createCandidateLinks mentionId candidates s5)
           (\<lambda>s6. Inr (ResolvedAmbiguous (ce_id unresolved), s6))))"

definition resolveNew :: "nat \<Rightarrow> MentionRow \<Rightarrow> Store \<Rightarrow> db_error + (Resolution \<times> Store)" where
  "resolveNew fileId m s =
     (let (createdCanonical, s1) =
            canonicalEntity_create (entityType m) (mentionText m) (mentionNormalized m) [] s
      in bindE (writeResolvedMention fileId m createdCanonical s1)
           (\<lambda>(mentionId, s5). Inr (ResolvedNew (ce_id createdCanonical), s5)))"

definition resolveMerge ::
  "nat \<Rightarrow> MentionRow \<Rightarrow> nat \<Rightarrow> Store \<Rightarrow> db_error + (Resolution \<times> Store)" where
  "resolveMerge fileId m chosenCanonicalId s =
     (case canonicalEntity_findUnique chosenCanonicalId s of
        None \<Rightarrow> Inr (SkippedNoCanonical, s)
      | Some canonical \<Rightarrow>
          bindE (writeResolvedMention fileId m canonical s)
            (\<lambda>(mentionId, s5). Inr (ResolvedMerged (ce_id canonical), s5)))"

text \<open>The body of the loop over the mentions of one document.\<close>

definition resolveMention :: "nat \<Rightarrow> MentionRow \<Rightarrow> Store \<Rightarrow> db_error + (Resolution \<times> Store)" where
  "resolveMention fileId m s =
     (let candidates = findAliasCandidates (mentionText m) (mentionNormalized m) (entityType m) s
      in case decide candidates of
           DecideAmbiguous \<Rightarrow> resolveAmbiguous fileId m candidates s
         | DecideCreate \<Rightarrow> resolveNew fileId m s
         | DecideMerge chosenCanonicalId \<Rightarrow> resolveMerge fileId m chosenCanonicalId s)"

fun resolvedId :: "Resolution \<Rightarrow> nat option" where
  "resolvedId (ResolvedAmbiguous c) = Some c"
| "resolvedId (ResolvedNew c) = Some c"
| "resolvedId (ResolvedMerged c) = Some c"
| "resolvedId SkippedNoCanonical = None"


section \<open>Mention ingestion pipeline\<close>

text \<open>
  A raw mention as the extractor returns it. The position is a finite number; \<open>None\<close> stands
  for an absent position and for any value the guard
  \<^verbatim>\<open>typeof e.position === "number" && Number.isFinite(e.position)\<close> rejects.
\<close>

record ExtractedEntity =
  ex_text :: string
  ex_type :: EntityType
  ex_context :: "string option"
  ex_position :: "rat option"

record Stats =
  totalFiles :: nat
  processed :: nat
  skipped :: nat
  failed :: nat
  totalEntities :: nat
  totalMentions :: nat
  mergedMentions :: nat
  newEntities :: nat

text \<open>\<^verbatim>\<open>String.prototype.indexOf\<close>; \<open>None\<close> is the result \<^verbatim>\<open>-1\<close>.\<close>

fun indexOf :: "string \<Rightarrow> string \<Rightarrow> nat option" where
  "indexOf [] needle = (if needle = [] then Some 0 else None)"
| "indexOf (c # cs) needle =
     (if startsWith (c # cs) needle then Some 0 else map_option Suc (indexOf cs needle))"

definition buildContextSnippet :: "string \<Rightarrow> nat \<Rightarrow> nat \<Rightarrow> string" where
  "buildContextSnippet fullText position entityLen =
     (let before = 100; after = 100;
          start = position - before;
          end = min (length fullText) (position + max entityLen 1 + after)
      in take (end - start) (drop start fullText))"

text \<open>
  The body of the loop over the extracted entities of one chunk (given as offset and text);
  \<open>None\<close> is \<^verbatim>\<open>continue\<close>.
\<close>

definition mentionOf :: "string \<Rightarrow> nat \<times> string \<Rightarrow> ExtractedEntity \<Rightarrow> MentionRow option" where
  "mentionOf fullText c e =
     (let mText = trim (ex_text e) in
      if mText = [] then None
      else
        (let posInChunk0 =
               (case ex_position e of
                  None \<Rightarrow> None
                | Some p \<Rightarrow> if 0 \<le> p then Some (nat \<lfloor>p\<rfloor>) else None);
             posInChunk = (case posInChunk0 of None \<Rightarrow> indexOf (snd c) mText | Some p \<Rightarrow> Some p);
             globalPos = map_option (\<lambda>p. fst c + p) posInChunk;
             snippet =
               (case globalPos of
                  Some g \<Rightarrow> buildContextSnippet fullText g (length mText)
                | None \<Rightarrow> (case ex_context e of None \<Rightarrow> [] | Some ctx \<Rightarrow> ctx));
             mNormalized = normalizeMention mText
         in if mNormalized = [] then None
            else Some \<lparr>mentionText = mText, entityType = ex_type e,
                        mentionNormalized = mNormalized, mentionPosition = globalPos,
                        contextSnippet = snippet\<rparr>))"

text \<open>
  The loop over the chunks of one document. The extractor is an outside service: a function
  from the chunk text to its answer or failure (after its retries).
\<close>

fun collectMentions ::
  "(string \<Rightarrow> db_error + ExtractedEntity list) \<Rightarrow> string \<Rightarrow> (nat \<times> string) list \<Rightarrow> Stats
     \<Rightarrow> MentionRow list \<Rightarrow> Stats \<times> (db_error + MentionRow list)" where
  "collectMentions extract fullText [] st mentions = (st, Inr mentions)"
| "collectMentions extract fullText (c # cs) st mentions =
     (case extract (snd c) of
        Inl err \<Rightarrow> (st, Inl err)
      | Inr extracted \<Rightarrow>
          collectMentions extract fullText cs
            (st\<lparr>totalEntities := totalEntities st + length extracted\<rparr>)
            (mentions @ List.map_filter (mentionOf fullText c) extracted))"

definition showEntityType :: "EntityType \<Rightarrow> string" where
  "showEntityType ty =
     (case ty of PERSON \<Rightarrow> ''PERSON'' | LOCATION \<Rightarrow> ''LOCATION'' | ORGANIZATION \<Rightarrow> ''ORGANIZATION'')"

text \<open>The deduplication key of a mention, as the template string builds it.\<close>

definition mentionKey :: "MentionRow \<Rightarrow> string" where
  "mentionKey m =
     showEntityType (entityType m) @ ''|'' @ mentionNormalized m @ ''|'' @
     (case mentionPosition m of None \<Rightarrow> ''-1'' | Some p \<Rightarrow> showNat p) @ ''|'' @
     toLowerCase (mentionText m)"

fun dedupeMentions ::
  "MentionRow list \<Rightarrow> MentionRow list \<times> string list \<Rightarrow> MentionRow list \<times> string list" where
  "dedupeMentions [] (uniq, seenKeys) = (uniq, seenKeys)"
| "dedupeMentions (m # ms) (uniq, seenKeys) =
     (let key = mentionKey m in
      if key \<in> set seenKeys then dedupeMentions ms (uniq, seenKeys)
      else dedupeMentions ms (uniq @ [m], setAdd seenKeys key))"

definition uniqMentions :: "MentionRow list \<Rightarrow> MentionRow list" where
  "uniqMentions mentions = fst (dedupeMentions mentions ([], []))"

text \<open>The counters the loop body bumps; they are program variables, outside the database.\<close>

fun countResolution :: "Resolution \<Rightarrow> Stats \<Rightarrow> Stats" where
  "countResolution (ResolvedAmbiguous c) st = st\<lparr>newEntities := newEntities st + 1\<rparr>"
| "countResolution (ResolvedNew c) st = st\<lparr>newEntities := newEntities st + 1\<rparr>"
| "countResolution (ResolvedMerged c) st = st\<lparr>mergedMentions := mergedMentions st + 1\<rparr>"
| "countResolution SkippedNoCanonical st = st"

fun resolveAll ::
  "nat \<Rightarrow> MentionRow list \<Rightarrow> Stats \<Rightarrow> Store \<Rightarrow> Stats \<times> (db_error + Store)" where
  "resolveAll fileId [] st s = (st, Inr s)"
| "resolveAll fileId (m # ms) st s =
     (case resolveMention fileId m s of
        Inl err \<Rightarrow> (st, Inl err)
      | Inr (r, s') \<Rightarrow> resolveAll fileId ms (countResolution r st) s')"

text \<open>The callback passed to \<^verbatim>\<open>prisma.$transaction\<close>.\<close>

definition transactionBody ::
  "bool \<Rightarrow> nat \<Rightarrow> MentionRow list \<Rightarrow> Stats \<Rightarrow> Store \<Rightarrow> Stats \<times> (db_error + Store)" where
  "transactionBody reprocess fileId uniq st s =
     (let s0 = (if reprocess then entityMention_deleteMany fileId s else s) in
      case resolveAll fileId uniq st s0 of
        (st', Inl err) \<Rightarrow> (st', Inl err)
      | (st', Inr s1) \<Rightarrow> (st', file_update_entitiesExtracted fileId s1))"

text \<open>
  \<^verbatim>\<open>prisma.$transaction\<close>: when the callback throws, the database is as it was before the
  transaction and the exception goes on to the caller; otherwise its writes are committed.
\<close>

definition transaction ::
  "(Store \<Rightarrow> 'a \<times> (db_error + Store)) \<Rightarrow> Store \<Rightarrow> 'a \<times> (db_error + unit) \<times> Store" where
  "transaction body s =
     (case body s of
        (a, Inl err) \<Rightarrow> (a, Inl err, s)
      | (a, Inr s') \<Rightarrow> (a, Inr (), s'))"

text \<open>
  The body of the loop over the fetched files, with its \<^verbatim>\<open>try\<close>/\<^verbatim>\<open>catch\<close>. The chunker
  is a parameter: it maps the document text to chunks, each with its offset.
\<close>

definition processFile ::
  "bool \<Rightarrow> (string \<Rightarrow> (nat \<times> string) list) \<Rightarrow> (string \<Rightarrow> db_error + ExtractedEntity list)
     \<Rightarrow> File \<Rightarrow> Stats \<times> Store \<Rightarrow> Stats \<times> Store" where
  "processFile reprocess chunker extract f acc =
     (let st = fst acc; s = snd acc in
      if \<not> reprocess \<and> f_entitiesExtracted f then (st\<lparr>skipped := skipped st + 1\<rparr>, s)
      else
        (let fullText = trim (case f_fullText f of None \<Rightarrow> [] | Some t \<Rightarrow> t) in
         if fullText = [] then (st\<lparr>skipped := skipped st + 1\<rparr>, s)
         else if length fullText < 50 then (st\<lparr>skipped := skipped st + 1\<rparr>, s)
         else
           (case collectMentions extract fullText (chunker fullText) st [] of
              (st1, Inl err) \<Rightarrow> (st1\<lparr>failed := failed st1 + 1\<rparr>, s)
            | (st1, Inr mentions) \<Rightarrow>
                (let uniq = uniqMentions mentions in
                 case transaction (transactionBody reprocess (f_id f) uniq st1) s of
                   (st2, Inl err, s') \<Rightarrow> (st2\<lparr>failed := failed st2 + 1\<rparr>, s')
                 | (st2, Inr u, s') \<Rightarrow>
                     (st2\<lparr>processed := processed st2 + 1,
                          totalMentions := totalMentions st2 + length uniq\<rparr>, s')))))"

fun processFiles ::
  "bool \<Rightarrow> (string \<Rightarrow> (nat \<times> string) list) \<Rightarrow> (string \<Rightarrow> db_error + ExtractedEntity list)
     \<Rightarrow> File list \<Rightarrow> Stats \<times> Store \<Rightarrow> Stats \<times> Store" where
  "processFiles reprocess chunker extract [] acc = acc"
| "processFiles reprocess chunker extract (f # fs) acc =
     processFiles reprocess chunker extract fs (processFile reprocess chunker extract f acc)"


section \<open>Vocabulary of the properties\<close>

text \<open>The rows each lookup of the matcher fetches (at most 20 per lookup).\<close>

definition exactRows :: "string \<Rightarrow> EntityType \<Rightarrow> Store \<Rightarrow> EntityAlias list" where
  "exactRows mNormalized ty s = entityAlias_findMany ty mNormalized 20 s"

definition fingerprintRows :: "string \<Rightarrow> string \<Rightarrow> EntityType \<Rightarrow> Store \<Rightarrow> EntityAlias list" where
  "fingerprintRows mText mNormalized ty s =
     (if ty = PERSON \<or> ty = ORGANIZATION then
        (case keyFingerprint mText of
           None \<Rightarrow> []
         | Some key \<Rightarrow>
             if key \<noteq> [] \<and> key \<noteq> mNormalized then entityAlias_findMany ty key 20 s else [])
      else [])"

text \<open>The distinct canonical entity ids among the candidates of one reason.\<close>

definition exactSet :: "AliasCandidate list \<Rightarrow> nat set" where
  "exactSet candidates =
     ac_canonicalEntityId ` {c \<in> set candidates. ac_reason c = exact_alias}"

definition fingerprintSet :: "AliasCandidate list \<Rightarrow> nat set" where
  "fingerprintSet candidates =
     ac_canonicalEntityId ` {c \<in> set candidates. ac_reason c = key_fingerprint}"

text \<open>The ids whose key with the given suffix is in the \<^verbatim>\<open>seen\<close> set.\<close>

definition seenIds :: "string \<Rightarrow> string list \<Rightarrow> nat set" where
  "seenIds suffix seen = {n. showNat n @ suffix \<in> set seen}"

text \<open>A normalised string is registered as an alias of a canonical entity.\<close>

definition hasAlias :: "Store \<Rightarrow> nat \<Rightarrow> string \<Rightarrow> bool" where
  "hasAlias s cid x =
     (\<exists>a \<in> set (entityAliases s). ea_canonicalEntityId a = cid \<and> ea_aliasNormalized a = x)"

text \<open>
  What the schema and the code keep true of the canonical tables: canonical ids come from
  the sequence and are distinct, every alias belongs to an existing canonical entity (the
  foreign key) of its own entity type, and no canonical entity has the same normalised
  alias twice (the unique index).
\<close>

definition storeInvariant :: "Store \<Rightarrow> bool" where
  "storeInvariant s =
     ((\<forall>c \<in> set (canonicalEntities s). ce_id c < nextCanonicalEntityId s) \<and>
      distinct (map ce_id (canonicalEntities s)) \<and>
      (\<forall>a \<in> set (entityAliases s). \<exists>c \<in> set (canonicalEntities s).
          ce_id c = ea_canonicalEntityId a \<and> ce_entityType c = ea_entityType a) \<and>
      distinct (map (\<lambda>a. (ea_canonicalEntityId a, ea_aliasNormalized a)) (entityAliases s)))"

definition fileExists :: "Store \<Rightarrow> nat \<Rightarrow> bool" where
  "fileExists s fileId = (\<exists>f \<in> set (files s). f_id f = fileId)"

text \<open>Two mentions agree on the four parts of the deduplication key.\<close>

definition sameKeyFields :: "MentionRow \<Rightarrow> MentionRow \<Rightarrow> bool" where
  "sameKeyFields a b =
     (entityType a = entityType b \<and> mentionNormalized a = mentionNormalized b \<and>
      mentionPosition a = mentionPosition b \<and>
      toLowerCase (mentionText a) = toLowerCase (mentionText b))"


text \<open>The position inside the key: \<^verbatim>\<open>m.mentionPosition ?? -1\<close>.\<close>

definition showPosition :: "nat option \<Rightarrow> string" where
  "showPosition p = (case p of None \<Rightarrow> ''-1'' | Some n \<Rightarrow> showNat n)"

text \<open>The writes of the engine as steps on the database: each appends rows to one table.\<close>

definition addCanonical :: "CanonicalEntity \<Rightarrow> Store \<Rightarrow> Store" where
  "addCanonical c s = s\<lparr>canonicalEntities := canonicalEntities s @ [c],
     nextCanonicalEntityId := Suc (nextCanonicalEntityId s)\<rparr>"

definition addAliases :: "EntityAlias list \<Rightarrow> Store \<Rightarrow> Store" where
  "addAliases newA s = s\<lparr>entityAliases := entityAliases s @ newA,
     nextEntityAliasId := nextEntityAliasId s + length newA\<rparr>"

definition addEntities :: "Entity list \<Rightarrow> Store \<Rightarrow> Store" where
  "addEntities newE s = s\<lparr>entities := entities s @ newE,
     nextEntityId := nextEntityId s + length newE\<rparr>"

definition addMention :: "EntityMention \<Rightarrow> Store \<Rightarrow> Store" where
  "addMention r s = s\<lparr>entityMentions := entityMentions s @ [r],
     nextEntityMentionId := Suc (nextEntityMentionId s)\<rparr>"


text \<open>The mention row every branch writes.\<close>

definition mentionRecord ::
  "nat \<Rightarrow> nat \<Rightarrow> nat \<Rightarrow> nat \<Rightarrow> nat \<Rightarrow> MentionRow \<Rightarrow> EntityMention" where
  "mentionRecord mid fileId legacyId cid aliasId m =
     \<lparr>em_id = mid, em_fileId = fileId, em_entityId = legacyId, em_canonicalEntityId = cid,
      em_aliasId = aliasId, em_mentionText = mentionText m,
      em_mentionNormalized = mentionNormalized m, em_pageNumber = None,
      em_contextSnippet = contextSnippet m, em_mentionPosition = mentionPosition m,
      em_confidence = 1\<rparr>"

definition addLinks :: "EntityCandidateLink list \<Rightarrow> Store \<Rightarrow> Store" where
  "addLinks newL s = s\<lparr>entityCandidateLinks := entityCandidateLinks s @ newL,
     nextEntityCandidateLinkId := nextEntityCandidateLinkId s + length newL\<rparr>"




text \<open>The canonical entity row made from a mention.\<close>

definition newCanonical :: "nat \<Rightarrow> MentionRow \<Rightarrow> meta \<Rightarrow> CanonicalEntity" where
  "newCanonical i m mt = \<lparr>ce_id = i, ce_entityType = entityType m,
     ce_canonicalText = mentionText m, ce_canonicalNormalized = mentionNormalized m,
     ce_meta = mt\<rparr>"


text \<open>What a branch leaves behind for the entity \<open>can\<close> it resolved to.\<close>

definition branchEffect ::
  "nat \<Rightarrow> MentionRow \<Rightarrow> CanonicalEntity \<Rightarrow> Store \<Rightarrow> Store \<Rightarrow> bool" where
  "branchEffect fid m can s s' =
     (\<exists>aid newA newE eid.
        s' = addMention (mentionRecord (nextEntityMentionId s) fid eid (ce_id can) aid m)
               (addEntities newE (addAliases newA s)) \<and>
        (\<forall>a \<in> set newA. ea_entityType a = entityType m \<and> ea_canonicalEntityId a = ce_id can \<and>
            ea_aliasText a = mentionText m \<and>
            ea_aliasNormalized a \<in>
              set (mentionNormalized m # buildKeyFingerprints (entityType m) (mentionText m)) \<and>
            \<not> hasAlias s (ce_id can) (ea_aliasNormalized a)) \<and>
        distinct (map ea_aliasNormalized newA) \<and>
        (\<forall>x \<in> set (mentionNormalized m # buildKeyFingerprints (entityType m) (mentionText m)).
            hasAlias (addAliases newA s) (ce_id can) x) \<and>
        (\<exists>a \<in> set (entityAliases s @ newA). ea_id a = aid \<and>
            ea_canonicalEntityId a = ce_id can \<and> ea_aliasNormalized a = mentionNormalized m) \<and>
        (\<exists>e \<in> set (entities s @ newE). en_id e = eid \<and> en_entityType e = entityType m \<and>
            en_normalizedText e = ce_canonicalNormalized can) \<and>
        ((\<exists>e \<in> set (entities s). en_entityType e = entityType m \<and>
            en_normalizedText e = ce_canonicalNormalized can) \<longrightarrow> newE = []))"

section \<open>Fixtures\<close>

definition emptyStats :: Stats where
  "emptyStats = \<lparr>totalFiles = 0, processed = 0, skipped = 0, failed = 0, totalEntities = 0,
     totalMentions = 0, mergedMentions = 0, newEntities = 0\<rparr>"

text \<open>A database holding one processed file and nothing else.\<close>

definition emptyStore :: Store where
  "emptyStore = \<lparr>canonicalEntities = [], entityAliases = [], entities = [], entityMentions = [],
     entityCandidateLinks = [],
     files = [\<lparr>f_id = 1, f_filepath = ''a.raw'', f_fullText = None, f_entitiesExtracted = False\<rparr>],
     nextCanonicalEntityId = 1, nextEntityAliasId = 1, nextEntityId = 1, nextEntityMentionId = 1,
     nextEntityCandidateLinkId = 1\<rparr>"

text \<open>A mention as the pipeline builds it from a text without a position.\<close>

definition mentionRow :: "EntityType \<Rightarrow> string \<Rightarrow> MentionRow" where
  "mentionRow ty t = \<lparr>mentionText = t, entityType = ty, mentionNormalized = normalizeMention t,
     mentionPosition = None, contextSnippet = []\<rparr>"

text \<open>The database after the mention "John Smith" (PERSON) was resolved in \<open>emptyStore\<close>.\<close>

definition johnSmithStore :: Store where
  "johnSmithStore = emptyStore\<lparr>
     canonicalEntities :=
       [\<lparr>ce_id = 1, ce_entityType = PERSON, ce_canonicalText = ''John Smith'',
         ce_canonicalNormalized = ''john smith'', ce_meta = []\<rparr>],
     entityAliases :=
       [\<lparr>ea_id = 1, ea_entityType = PERSON, ea_canonicalEntityId = 1,
         ea_aliasText = ''John Smith'', ea_aliasNormalized = ''john smith''\<rparr>,
        \<lparr>ea_id = 2, ea_entityType = PERSON, ea_canonicalEntityId = 1,
         ea_aliasText = ''John Smith'', ea_aliasNormalized = ''smith''\<rparr>],
     entities :=
       [\<lparr>en_id = 1, en_entityText = ''John Smith'', en_entityType = PERSON,
         en_normalizedText = ''john smith'', en_canonicalText = ''John Smith'',
         en_aliases = [''John Smith''], en_aliasFingerprints = [''john smith'', ''smith''],
         en_meta = []\<rparr>],
     entityMentions :=
       [\<lparr>em_id = 1, em_fileId = 1, em_entityId = 1, em_canonicalEntityId = 1, em_aliasId = 1,
         em_mentionText = ''John Smith'', em_mentionNormalized = ''john smith'',
         em_pageNumber = None, em_contextSnippet = [], em_mentionPosition = None,
         em_confidence = 1\<rparr>],
     nextCanonicalEntityId := 2, nextEntityAliasId := 3, nextEntityId := 2,
     nextEntityMentionId := 2\<rparr>"

text \<open>
  Two canonical entities that both carry the alias "john smith"; the first also carries
  the last-token alias "smith".
\<close>

definition twoJohnSmithsStore :: Store where
  "twoJohnSmithsStore = emptyStore\<lparr>
     canonicalEntities :=
       [\<lparr>ce_id = 1, ce_entityType = PERSON, ce_canonicalText = ''John Smith'',
         ce_canonicalNormalized = ''john smith'', ce_meta = []\<rparr>,
        \<lparr>ce_id = 2, ce_entityType = PERSON, ce_canonicalText = ''John Smith'',
         ce_canonicalNormalized = ''john smith'', ce_meta = []\<rparr>],
     entityAliases :=
       [\<lparr>ea_id = 1, ea_entityType = PERSON, ea_canonicalEntityId = 1,
         ea_aliasText = ''John Smith'', ea_aliasNormalized = ''john smith''\<rparr>,
        \<lparr>ea_id = 2, ea_entityType = PERSON, ea_canonicalEntityId = 1,
         ea_aliasText = ''John Smith'', ea_aliasNormalized = ''smith''\<rparr>,
        \<lparr>ea_id = 3, ea_entityType = PERSON, ea_canonicalEntityId = 2,
         ea_aliasText = ''John Smith'', ea_aliasNormalized = ''john smith''\<rparr>],
     nextCanonicalEntityId := 3, nextEntityAliasId := 4\<rparr>"

text \<open>Two canonical entities that both carry the alias "smith".\<close>

definition twoSmithsStore :: Store where
  "twoSmithsStore = emptyStore\<lparr>
     canonicalEntities :=
       [\<lparr>ce_id = 1, ce_entityType = PERSON, ce_canonicalText = ''Smith'',
         ce_canonicalNormalized = ''smith'', ce_meta = []\<rparr>,
        \<lparr>ce_id = 2, ce_entityType = PERSON, ce_canonicalText = ''Smith'',
         ce_canonicalNormalized = ''smith'', ce_meta = []\<rparr>],
     entityAliases :=
       [\<lparr>ea_id = 1, ea_entityType = PERSON, ea_canonicalEntityId = 1,
         ea_aliasText = ''Smith'', ea_aliasNormalized = ''smith''\<rparr>,
        \<lparr>ea_id = 2, ea_entityType = PERSON, ea_canonicalEntityId = 2,
         ea_aliasText = ''Smith'', ea_aliasNormalized = ''smith''\<rparr>],
     nextCanonicalEntityId := 3, nextEntityAliasId := 3\<rparr>"

text \<open>
  Resolving the same mention twice in a row, the second time in the database the first
  resolution left: the two canonical entity ids, when both resolutions return.
\<close>

definition resolveTwice :: "nat \<Rightarrow> MentionRow \<Rightarrow> Store \<Rightarrow> (nat option \<times> nat option) option" where
  "resolveTwice fileId m s =
     (case resolveMention fileId m s of
        Inl err \<Rightarrow> None
      | Inr (r1, s1) \<Rightarrow>
          (case resolveMention fileId m s1 of
             Inl err \<Rightarrow> None
           | Inr (r2, s2) \<Rightarrow> Some (resolvedId r1, resolvedId r2)))"

text \<open>Two mentions of one span: the extractor returned it with and without the title.\<close>

definition mrSmithAt10 :: MentionRow where
  "mrSmithAt10 = \<lparr>mentionText = ''Mr. Smith'', entityType = PERSON,
     mentionNormalized = normalizeMention ''Mr. Smith'', mentionPosition = Some 10,
     contextSnippet = []\<rparr>"

definition smithAt10 :: MentionRow where
  "smithAt10 = \<lparr>mentionText = ''Smith'', entityType = PERSON,
     mentionNormalized = normalizeMention ''Smith'', mentionPosition = Some 10,
     contextSnippet = []\<rparr>"

definition smithAt10Again :: MentionRow where
  "smithAt10Again = \<lparr>mentionText = ''SMITH'', entityType = PERSON,
     mentionNormalized = normalizeMention ''SMITH'', mentionPosition = Some 10,
     contextSnippet = ''seen in another chunk''\<rparr>"

section \<open>Properties of the normaliser\<close>

subsection \<open>Splitting and the last token\<close>

lemma split_nonempty: "split d s \<noteq> []"
  by (induction s) (auto split: list.splits)

lemma split_no_delim: "d \<notin> set s \<Longrightarrow> split d s = [s]"
  by (induction s) auto

lemma split_two: "d \<in> set s \<Longrightarrow> \<exists>w v vs. split d s = w # v # vs"
proof (induction s)
  case Nil
  then show ?case by simp
next
  case (Cons c cs)
  show ?case
  proof (cases "c = d")
    case True
    then show ?thesis using split_nonempty[of d cs] by (cases "split d cs") auto
  next
    case False
    then have "d \<in> set cs" using Cons.prems by simp
    then obtain w v vs where "split d cs = w # v # vs" using Cons.IH by blast
    then show ?thesis using False by simp
  qed
qed

lemma last_split_behind: "last (split d (xs @ d # ys)) = last (split d ys)"
proof (induction xs)
  case Nil
  then show ?case using split_nonempty[of d ys] by simp
next
  case (Cons x xs)
  show ?case
  proof (cases "x = d")
    case True
    then show ?thesis using Cons.IH split_nonempty[of d "xs @ d # ys"] by simp
  next
    case False
    obtain w v vs where "split d (xs @ d # ys) = w # v # vs"
      using split_two[of d "xs @ d # ys"] by auto
    then show ?thesis using False Cons.IH by simp
  qed
qed

lemma last_split: "last (split d s) = rev (takeWhile (\<lambda>c. c \<noteq> d) (rev s))"
proof (cases "d \<in> set s")
  case False
  then have tw: "takeWhile (\<lambda>c. c \<noteq> d) (rev s) = rev s"
    by auto
  show ?thesis using False by (simp add: split_no_delim tw)
next
  case True
  then obtain xs ys where s: "s = xs @ d # ys" and ys: "d \<notin> set ys"
    by (auto dest: split_list_last)
  have "takeWhile (\<lambda>c. c \<noteq> d) (rev ys @ d # rev xs) = rev ys"
    using ys by (subst takeWhile_append2) auto
  then show ?thesis using s ys by (simp add: last_split_behind split_no_delim)
qed

lemma collapse_space_chars: "c \<in> set (collapseSpaces s) \<Longrightarrow> isSpace c \<Longrightarrow> c = CHR '' ''"
  by (induction s rule: collapseSpaces.induct) (auto split: if_splits)

lemma set_trim: "set (trim s) \<subseteq> set s"
  by (auto simp: trim_def dest!: set_dropWhileD)

lemma trim_last: "trim s \<noteq> [] \<Longrightarrow> \<not> isSpace (last (trim s))"
  unfolding trim_def by (simp add: last_rev hd_dropWhile)

lemma normalize_space_chars:
  "c \<in> set (normalizeMention text) \<Longrightarrow> isSpace c \<Longrightarrow> c = CHR '' ''"
  unfolding normalizeMention_def Let_def using set_trim collapse_space_chars by blast

lemma normalize_last: "normalizeMention text \<noteq> [] \<Longrightarrow> \<not> isSpace (last (normalizeMention text))"
  unfolding normalizeMention_def Let_def by (rule trim_last)

lemma isSpace_space: "isSpace (CHR '' '')"
  by (simp add: isSpace_def code_def)



lemma last_split_lastToken:
  assumes "\<And>c. c \<in> set s \<Longrightarrow> isSpace c \<Longrightarrow> c = CHR '' ''"
  shows "last (split (CHR '' '') s) = lastToken s"
proof -
  have "takeWhile (\<lambda>c. c \<noteq> CHR '' '') (rev s) = takeWhile (\<lambda>c. \<not> isSpace c) (rev s)"
    using assms isSpace_space by (intro takeWhile_cong) auto
  then show ?thesis by (simp add: last_split lastToken_def)
qed

lemma lastToken_nonempty: "s \<noteq> [] \<Longrightarrow> \<not> isSpace (last s) \<Longrightarrow> lastToken s \<noteq> []"
  by (cases s rule: rev_cases) (auto simp: lastToken_def)

lemma last_filter_keep: "xs \<noteq> [] \<Longrightarrow> P (last xs) \<Longrightarrow> filter P xs \<noteq> [] \<and> last (filter P xs) = last xs"
  by (cases xs rule: rev_cases) auto

lemma tokens_last:
  assumes "normalizeMention text \<noteq> []"
  shows "filter (\<lambda>t. t \<noteq> []) (split (CHR '' '') (normalizeMention text)) \<noteq> [] \<and>
         last (filter (\<lambda>t. t \<noteq> []) (split (CHR '' '') (normalizeMention text)))
           = lastToken (normalizeMention text)"
proof -
  let ?n = "normalizeMention text"
  have eq: "last (split (CHR '' '') ?n) = lastToken ?n"
    by (rule last_split_lastToken) (rule normalize_space_chars)
  have ne: "lastToken ?n \<noteq> []"
    using assms normalize_last by (intro lastToken_nonempty) auto
  show ?thesis
    using last_filter_keep[of "split (CHR '' '') ?n" "\<lambda>t. t \<noteq> []"] split_nonempty eq ne by simp
qed


text \<open>
  C9. For every entity type and text, \<open>buildKeyFingerprints\<close> returns a duplicate-free list
  whose elements are: nothing when the text normalises to the empty string; otherwise the
  full normalised text and, for PERSON and ORGANIZATION only, the last whitespace-delimited
  token of the normalised text when that token has at least 4 characters. LOCATION gets no
  second fingerprint.
\<close>

theorem buildKeyFingerprints_spec:
  "set (buildKeyFingerprints ty raw) =
     (if normalizeMention raw = [] then {}
      else {normalizeMention raw} \<union>
        (if (ty = PERSON \<or> ty = ORGANIZATION) \<and> 4 \<le> length (lastToken (normalizeMention raw))
         then {lastToken (normalizeMention raw)} else {})) \<and>
   distinct (buildKeyFingerprints ty raw)"
  using tokens_last[of raw]
  by (auto simp: buildKeyFingerprints_def Let_def setAdd_def)

theorem buildKeyFingerprints_spec_witness:
  "set (buildKeyFingerprints PERSON ''Mr. Jeffrey  Epstein'') = {''jeffrey epstein'', ''epstein''}"
proof -
  have n: "normalizeMention ''Mr. Jeffrey  Epstein'' = ''jeffrey epstein''" by code_simp
  have l: "lastToken ''jeffrey epstein'' = ''epstein''" by code_simp
  show ?thesis using buildKeyFingerprints_spec[of PERSON "''Mr. Jeffrey  Epstein''"]
    unfolding n l by auto
qed


section \<open>Properties of the candidate matcher\<close>

subsection \<open>Keys of the seen set\<close>

lemma code_digitChar: "d < 10 \<Longrightarrow> code (digitChar d) = 48 + d"
  by (simp add: code_def digitChar_def)

lemma digitChar_inj:
  assumes "a < 10" and "b < 10" and "digitChar a = digitChar b"
  shows "a = b"
proof -
  have "code (digitChar a) = code (digitChar b)" by (simp only: assms(3))
  then have "48 + a = 48 + b" by (simp only: code_digitChar[OF assms(1)] code_digitChar[OF assms(2)])
  then show ?thesis by simp
qed

lemma showNat_nonempty: "showNat n \<noteq> []"
  by (subst showNat.simps) simp

lemma showNat_digits: "c \<in> set (showNat n) \<Longrightarrow> 48 \<le> code c \<and> code c \<le> 57"
proof (induction n rule: showNat.induct)
  case (1 n)
  show ?case
  proof (cases "n < 10")
    case True
    then show ?thesis using "1.prems" code_digitChar[of n] by (subst (asm) showNat.simps) auto
  next
    case False
    then show ?thesis using "1.prems" "1.IH" code_digitChar[of "n mod 10"]
      by (subst (asm) showNat.simps) auto
  qed
qed

lemma showNat_inj: "showNat a = showNat b \<Longrightarrow> a = b"
proof (induction a arbitrary: b rule: showNat.induct)
  case (1 a)
  have la: "showNat a = (if a < 10 then [digitChar a] else showNat (a div 10) @ [digitChar (a mod 10)])"
    by (subst showNat.simps) simp
  have lb: "showNat b = (if b < 10 then [digitChar b] else showNat (b div 10) @ [digitChar (b mod 10)])"
    by (subst showNat.simps) simp
  show ?case
  proof (cases "a < 10")
    case True
    note a = this
    show ?thesis
    proof (cases "b < 10")
      case True
      then show ?thesis using a la lb "1.prems" digitChar_inj by auto
    next
      case False
      then show ?thesis using a la lb "1.prems" showNat_nonempty[of "b div 10"] by auto
    qed
  next
    case False
    note a = this
    show ?thesis
    proof (cases "b < 10")
      case True
      then show ?thesis using a la lb "1.prems" showNat_nonempty[of "a div 10"] by auto
    next
      case False
      then have "showNat (a div 10) = showNat (b div 10)" and d: "digitChar (a mod 10) = digitChar (b mod 10)"
        using a la lb "1.prems" by auto
      then have "a div 10 = b div 10" using "1.IH" a by blast
      moreover have "a mod 10 = b mod 10" using d digitChar_inj[of "a mod 10" "b mod 10"] by simp
      ultimately show ?thesis by (metis div_mult_mod_eq)
    qed
  qed
qed

lemma key_exact_inj: "showNat a @ ''|exact'' = showNat b @ ''|exact'' \<longleftrightarrow> a = b"
  using showNat_inj by auto

lemma key_key_inj: "showNat a @ ''|key'' = showNat b @ ''|key'' \<longleftrightarrow> a = b"
  using showNat_inj by auto

lemma key_exact_neq: "showNat a @ ''|key'' \<noteq> showNat b @ ''|exact''"
proof
  assume "showNat a @ ''|key'' = showNat b @ ''|exact''"
  then have "last (showNat a @ ''|key'') = last (showNat b @ ''|exact'')" by simp
  then show False by simp
qed


subsection \<open>The candidate list\<close>

lemma johnSmithStore_reached:
  "resolveMention 1 (mentionRow PERSON ''John Smith'') emptyStore
     = Inr (ResolvedNew 1, johnSmithStore)"
  by code_simp

lemma pushCandidates_result:
  assumes "pushCandidates suffix why sc rows (out, seen) = (out', seen')"
  shows "\<exists>new. out' = out @ new \<and>
           (\<forall>c \<in> set new. ac_reason c = why \<and> ac_score c = sc \<and>
              (\<exists>row \<in> set rows. ac_canonicalEntityId c = ea_canonicalEntityId row \<and>
                  ac_aliasId c = ea_id row)) \<and>
           ac_canonicalEntityId ` set new = ea_canonicalEntityId ` set rows - seenIds suffix seen \<and>
           distinct (map ac_canonicalEntityId new) \<and>
           set seen' = set seen \<union> (\<lambda>r. showNat (ea_canonicalEntityId r) @ suffix) ` set rows"
  using assms
proof (induction rows arbitrary: out seen)
  case Nil
  then show ?case by simp
next
  case (Cons row rows)
  let ?key = "showNat (ea_canonicalEntityId row) @ suffix"
  show ?case
  proof (cases "?key \<in> set seen")
    case True
    then have "pushCandidates suffix why sc rows (out, seen) = (out', seen')"
      using Cons.prems by simp
    from Cons.IH[OF this] obtain new where n: "out' = out @ new"
      "\<forall>c \<in> set new. ac_reason c = why \<and> ac_score c = sc \<and>
              (\<exists>row \<in> set rows. ac_canonicalEntityId c = ea_canonicalEntityId row \<and>
                  ac_aliasId c = ea_id row)"
      "ac_canonicalEntityId ` set new = ea_canonicalEntityId ` set rows - seenIds suffix seen"
      "distinct (map ac_canonicalEntityId new)"
      "set seen' = set seen \<union> (\<lambda>r. showNat (ea_canonicalEntityId r) @ suffix) ` set rows"
      by blast
    have "ea_canonicalEntityId row \<in> seenIds suffix seen" using True by (simp add: seenIds_def)
    then have "ac_canonicalEntityId ` set new =
        ea_canonicalEntityId ` set (row # rows) - seenIds suffix seen"
      using n(3) by auto
    moreover have "set seen' = set seen \<union> (\<lambda>r. showNat (ea_canonicalEntityId r) @ suffix) ` set (row # rows)"
      using n(5) True by auto
    ultimately show ?thesis using n(1,2,4) by (intro exI[of _ new]) auto
  next
    case False
    let ?c = "\<lparr>ac_aliasId = ea_id row, ac_canonicalEntityId = ea_canonicalEntityId row,
                      ac_reason = why, ac_score = sc\<rparr>"
    have "pushCandidates suffix why sc rows (out @ [?c], seen @ [?key]) = (out', seen')"
      using Cons.prems False by (simp add: setAdd_def)
    from Cons.IH[OF this] obtain new where n: "out' = (out @ [?c]) @ new"
      "\<forall>c \<in> set new. ac_reason c = why \<and> ac_score c = sc \<and>
              (\<exists>row \<in> set rows. ac_canonicalEntityId c = ea_canonicalEntityId row \<and>
                  ac_aliasId c = ea_id row)"
      "ac_canonicalEntityId ` set new =
         ea_canonicalEntityId ` set rows - seenIds suffix (seen @ [?key])"
      "distinct (map ac_canonicalEntityId new)"
      "set seen' = set (seen @ [?key]) \<union> (\<lambda>r. showNat (ea_canonicalEntityId r) @ suffix) ` set rows"
      by blast
    have ids: "seenIds suffix (seen @ [?key]) = insert (ea_canonicalEntityId row) (seenIds suffix seen)"
      using showNat_inj by (auto simp: seenIds_def)
    have notin: "ea_canonicalEntityId row \<notin> seenIds suffix seen"
      using False by (simp add: seenIds_def)
    have a: "out' = out @ (?c # new)" using n(1) by simp
    have b: "ac_canonicalEntityId ` set (?c # new) =
        ea_canonicalEntityId ` set (row # rows) - seenIds suffix seen"
      using n(3) ids notin by auto
    have c: "distinct (map ac_canonicalEntityId (?c # new))"
      using n(3,4) ids by auto
    have d: "set seen' = set seen \<union> (\<lambda>r. showNat (ea_canonicalEntityId r) @ suffix) ` set (row # rows)"
      using n(5) by auto
    have e: "\<forall>c \<in> set (?c # new). ac_reason c = why \<and> ac_score c = sc \<and>
              (\<exists>r \<in> set (row # rows). ac_canonicalEntityId c = ea_canonicalEntityId r \<and>
                  ac_aliasId c = ea_id r)"
      using n(2) by auto
    show ?thesis using a b c d e by blast
  qed
qed

lemma findAliasCandidates_parts:
  "\<exists>ex fp. findAliasCandidates mText mNormalized ty s = ex @ fp \<and>
     (\<forall>c \<in> set ex. ac_reason c = exact_alias \<and> ac_score c = 1 \<and>
        (\<exists>row \<in> set (exactRows mNormalized ty s).
            ac_canonicalEntityId c = ea_canonicalEntityId row \<and> ac_aliasId c = ea_id row)) \<and>
     (\<forall>c \<in> set fp. ac_reason c = key_fingerprint \<and> ac_score c = 3 / 5 \<and>
        (\<exists>row \<in> set (fingerprintRows mText mNormalized ty s).
            ac_canonicalEntityId c = ea_canonicalEntityId row \<and> ac_aliasId c = ea_id row)) \<and>
     ac_canonicalEntityId ` set ex = ea_canonicalEntityId ` set (exactRows mNormalized ty s) \<and>
     ac_canonicalEntityId ` set fp =
       ea_canonicalEntityId ` set (fingerprintRows mText mNormalized ty s) \<and>
     distinct (map ac_canonicalEntityId ex) \<and> distinct (map ac_canonicalEntityId fp)"
proof -
  obtain ex seen where p1:
    "pushCandidates ''|exact'' exact_alias 1 (exactRows mNormalized ty s) ([], []) = (ex, seen)"
    by (cases "pushCandidates ''|exact'' exact_alias 1 (exactRows mNormalized ty s) ([], [])")
  from pushCandidates_result[OF p1] have ex:
    "\<forall>c \<in> set ex. ac_reason c = exact_alias \<and> ac_score c = 1 \<and>
        (\<exists>row \<in> set (exactRows mNormalized ty s).
            ac_canonicalEntityId c = ea_canonicalEntityId row \<and> ac_aliasId c = ea_id row)"
    "ac_canonicalEntityId ` set ex = ea_canonicalEntityId ` set (exactRows mNormalized ty s)"
    "distinct (map ac_canonicalEntityId ex)"
    "set seen = (\<lambda>r. showNat (ea_canonicalEntityId r) @ ''|exact'') ` set (exactRows mNormalized ty s)"
    by (auto simp: seenIds_def)
  have noKey: "seenIds ''|key'' seen = {}"
    using ex(4) key_exact_neq by (auto simp: seenIds_def)
  let ?rows = "fingerprintRows mText mNormalized ty s"
  obtain out' seen' where p2:
    "pushCandidates ''|key'' key_fingerprint (3 / 5) ?rows (ex, seen) = (out', seen')"
    by (cases "pushCandidates ''|key'' key_fingerprint (3 / 5) ?rows (ex, seen)")
  from pushCandidates_result[OF p2] obtain fp where fp: "out' = ex @ fp"
    "\<forall>c \<in> set fp. ac_reason c = key_fingerprint \<and> ac_score c = 3 / 5 \<and>
        (\<exists>row \<in> set ?rows.
            ac_canonicalEntityId c = ea_canonicalEntityId row \<and> ac_aliasId c = ea_id row)"
    "ac_canonicalEntityId ` set fp = ea_canonicalEntityId ` set ?rows"
    "distinct (map ac_canonicalEntityId fp)"
    using noKey by auto
  have "findAliasCandidates mText mNormalized ty s = out'"
    using p1 p2
    by (auto simp: findAliasCandidates_def exactRows_def fingerprintRows_def Let_def
        split: option.splits)
  then show ?thesis using ex(1,2,3) fp by blast
qed









lemma card_gt1_not_single: "finite A \<Longrightarrow> (1 < card A) = (A \<noteq> {} \<and> (\<forall>c. A \<noteq> {c}))"
  by (metis card_1_singletonE card_gt_0_iff is_singletonI is_singleton_altdef less_one linorder_neqE_nat card.empty not_less_zero)



lemma candidate_sets:
  "exactSet (findAliasCandidates mText mNormalized ty s)
     = ea_canonicalEntityId ` set (exactRows mNormalized ty s) \<and>
   fingerprintSet (findAliasCandidates mText mNormalized ty s)
     = ea_canonicalEntityId ` set (fingerprintRows mText mNormalized ty s)"
proof -
  from findAliasCandidates_parts[of mText mNormalized ty s] obtain ex fp where all:
    "findAliasCandidates mText mNormalized ty s = ex @ fp \<and>
     (\<forall>c \<in> set ex. ac_reason c = exact_alias \<and> ac_score c = 1 \<and>
        (\<exists>row \<in> set (exactRows mNormalized ty s).
            ac_canonicalEntityId c = ea_canonicalEntityId row \<and> ac_aliasId c = ea_id row)) \<and>
     (\<forall>c \<in> set fp. ac_reason c = key_fingerprint \<and> ac_score c = 3 / 5 \<and>
        (\<exists>row \<in> set (fingerprintRows mText mNormalized ty s).
            ac_canonicalEntityId c = ea_canonicalEntityId row \<and> ac_aliasId c = ea_id row)) \<and>
     ac_canonicalEntityId ` set ex = ea_canonicalEntityId ` set (exactRows mNormalized ty s) \<and>
     ac_canonicalEntityId ` set fp =
       ea_canonicalEntityId ` set (fingerprintRows mText mNormalized ty s) \<and>
     distinct (map ac_canonicalEntityId ex) \<and> distinct (map ac_canonicalEntityId fp)"
    by (elim exE)
  have p1: "findAliasCandidates mText mNormalized ty s = ex @ fp" using all by (elim conjE)
  have pe: "\<forall>c \<in> set ex. ac_reason c = exact_alias \<and> ac_score c = 1"
    using all by (elim conjE) simp
  have pf: "\<forall>c \<in> set fp. ac_reason c = key_fingerprint \<and> ac_score c = 3 / 5"
    using all by (elim conjE) simp
  have se: "ac_canonicalEntityId ` set ex = ea_canonicalEntityId ` set (exactRows mNormalized ty s)"
    using all by (elim conjE)
  have sf: "ac_canonicalEntityId ` set fp =
       ea_canonicalEntityId ` set (fingerprintRows mText mNormalized ty s)"
    using all by (elim conjE)
  have de: "distinct (map ac_canonicalEntityId ex)" using all by (elim conjE)
  have df: "distinct (map ac_canonicalEntityId fp)" using all by (elim conjE)
  have "{c \<in> set (ex @ fp). ac_reason c = exact_alias} = set ex" using pe pf by auto
  moreover have "{c \<in> set (ex @ fp). ac_reason c = key_fingerprint} = set fp"
    using pe pf by auto
  ultimately show ?thesis unfolding exactSet_def fingerprintSet_def p1 using se sf by simp
qed

text \<open>
  C3, as the code has it. The candidate list holds each pair of canonical entity id and
  reason at most once; an exact-alias candidate has score 1.0 and a fingerprint candidate
  score 0.6; the ids under each reason are exactly those of the rows the lookup of that
  reason fetched. So an entity that matches by both mechanisms is listed under both.
\<close>

theorem findAliasCandidates_once_per_reason:
  "distinct (map (\<lambda>c. (ac_canonicalEntityId c, ac_reason c))
      (findAliasCandidates mText mNormalized ty s)) \<and>
   (\<forall>c \<in> set (findAliasCandidates mText mNormalized ty s).
      (ac_reason c = exact_alias \<and> ac_score c = 1) \<or>
      (ac_reason c = key_fingerprint \<and> ac_score c = 3 / 5)) \<and>
   exactSet (findAliasCandidates mText mNormalized ty s)
     = ea_canonicalEntityId ` set (exactRows mNormalized ty s) \<and>
   fingerprintSet (findAliasCandidates mText mNormalized ty s)
     = ea_canonicalEntityId ` set (fingerprintRows mText mNormalized ty s)"
proof -
  from findAliasCandidates_parts[of mText mNormalized ty s] obtain ex fp where all:
    "findAliasCandidates mText mNormalized ty s = ex @ fp \<and>
     (\<forall>c \<in> set ex. ac_reason c = exact_alias \<and> ac_score c = 1 \<and>
        (\<exists>row \<in> set (exactRows mNormalized ty s).
            ac_canonicalEntityId c = ea_canonicalEntityId row \<and> ac_aliasId c = ea_id row)) \<and>
     (\<forall>c \<in> set fp. ac_reason c = key_fingerprint \<and> ac_score c = 3 / 5 \<and>
        (\<exists>row \<in> set (fingerprintRows mText mNormalized ty s).
            ac_canonicalEntityId c = ea_canonicalEntityId row \<and> ac_aliasId c = ea_id row)) \<and>
     ac_canonicalEntityId ` set ex = ea_canonicalEntityId ` set (exactRows mNormalized ty s) \<and>
     ac_canonicalEntityId ` set fp =
       ea_canonicalEntityId ` set (fingerprintRows mText mNormalized ty s) \<and>
     distinct (map ac_canonicalEntityId ex) \<and> distinct (map ac_canonicalEntityId fp)"
    by (elim exE)
  have p1: "findAliasCandidates mText mNormalized ty s = ex @ fp" using all by (elim conjE)
  have pe: "\<forall>c \<in> set ex. ac_reason c = exact_alias \<and> ac_score c = 1"
    using all by (elim conjE) simp
  have pf: "\<forall>c \<in> set fp. ac_reason c = key_fingerprint \<and> ac_score c = 3 / 5"
    using all by (elim conjE) simp
  have se: "ac_canonicalEntityId ` set ex = ea_canonicalEntityId ` set (exactRows mNormalized ty s)"
    using all by (elim conjE)
  have sf: "ac_canonicalEntityId ` set fp =
       ea_canonicalEntityId ` set (fingerprintRows mText mNormalized ty s)"
    using all by (elim conjE)
  have de: "distinct (map ac_canonicalEntityId ex)" using all by (elim conjE)
  have df: "distinct (map ac_canonicalEntityId fp)" using all by (elim conjE)
  have d1: "distinct (map (\<lambda>c. (ac_canonicalEntityId c, ac_reason c)) ex)"
    using de by (simp add: distinct_map inj_on_def)
  have d2: "distinct (map (\<lambda>c. (ac_canonicalEntityId c, ac_reason c)) fp)"
    using df by (simp add: distinct_map inj_on_def)
  have d: "distinct (map (\<lambda>c. (ac_canonicalEntityId c, ac_reason c)) (ex @ fp))"
    using d1 d2 pe pf by auto
  have sc: "\<forall>c \<in> set (ex @ fp).
      (ac_reason c = exact_alias \<and> ac_score c = 1) \<or>
      (ac_reason c = key_fingerprint \<and> ac_score c = 3 / 5)"
    using pe pf by auto
  show ?thesis using d sc candidate_sets[of mText mNormalized ty s] unfolding p1 by blast
qed

theorem findAliasCandidates_once_per_reason_witness:
  "findAliasCandidates ''John Smith'' ''john smith'' PERSON johnSmithStore =
     [\<lparr>ac_aliasId = 1, ac_canonicalEntityId = 1, ac_reason = exact_alias, ac_score = 1\<rparr>,
      \<lparr>ac_aliasId = 2, ac_canonicalEntityId = 1, ac_reason = key_fingerprint, ac_score = 3 / 5\<rparr>] \<and>
   distinct (map (\<lambda>c. (ac_canonicalEntityId c, ac_reason c))
      (findAliasCandidates ''John Smith'' ''john smith'' PERSON johnSmithStore))"
proof -
  have "findAliasCandidates ''John Smith'' ''john smith'' PERSON johnSmithStore =
     [\<lparr>ac_aliasId = 1, ac_canonicalEntityId = 1, ac_reason = exact_alias, ac_score = 1\<rparr>,
      \<lparr>ac_aliasId = 2, ac_canonicalEntityId = 1, ac_reason = key_fingerprint, ac_score = 3 / 5\<rparr>]"
    by code_simp
  then show ?thesis
    using findAliasCandidates_once_per_reason[of "''John Smith''" "''john smith''" PERSON johnSmithStore]
    by blast
qed

text \<open>
  C3, as stated, fails: after "John Smith" has been resolved once, the same mention finds
  its entity by the exact alias and again by the fingerprint "smith", and the list holds
  the entity id twice.
\<close>

theorem findAliasCandidates_repeats_entity:
  "\<not> distinct (map ac_canonicalEntityId
      (findAliasCandidates ''John Smith'' (normalizeMention ''John Smith'') PERSON johnSmithStore))"
  by code_simp



section \<open>Properties of the store operations\<close>

lemma addAliases_fields [simp]:
  "canonicalEntities (addAliases a s) = canonicalEntities s"
  "entityAliases (addAliases a s) = entityAliases s @ a"
  "entities (addAliases a s) = entities s"
  "entityMentions (addAliases a s) = entityMentions s"
  "entityCandidateLinks (addAliases a s) = entityCandidateLinks s"
  "files (addAliases a s) = files s"
  "nextCanonicalEntityId (addAliases a s) = nextCanonicalEntityId s"
  "nextEntityAliasId (addAliases a s) = nextEntityAliasId s + length a"
  "nextEntityId (addAliases a s) = nextEntityId s"
  "nextEntityMentionId (addAliases a s) = nextEntityMentionId s"
  "nextEntityCandidateLinkId (addAliases a s) = nextEntityCandidateLinkId s"
  by (simp_all add: addAliases_def)

lemma addEntities_fields [simp]:
  "canonicalEntities (addEntities a s) = canonicalEntities s"
  "entityAliases (addEntities a s) = entityAliases s"
  "entities (addEntities a s) = entities s @ a"
  "entityMentions (addEntities a s) = entityMentions s"
  "entityCandidateLinks (addEntities a s) = entityCandidateLinks s"
  "files (addEntities a s) = files s"
  "nextCanonicalEntityId (addEntities a s) = nextCanonicalEntityId s"
  "nextEntityAliasId (addEntities a s) = nextEntityAliasId s"
  "nextEntityId (addEntities a s) = nextEntityId s + length a"
  "nextEntityMentionId (addEntities a s) = nextEntityMentionId s"
  "nextEntityCandidateLinkId (addEntities a s) = nextEntityCandidateLinkId s"
  by (simp_all add: addEntities_def)

lemma addMention_fields [simp]:
  "canonicalEntities (addMention r s) = canonicalEntities s"
  "entityAliases (addMention r s) = entityAliases s"
  "entities (addMention r s) = entities s"
  "entityMentions (addMention r s) = entityMentions s @ [r]"
  "entityCandidateLinks (addMention r s) = entityCandidateLinks s"
  "files (addMention r s) = files s"
  "nextCanonicalEntityId (addMention r s) = nextCanonicalEntityId s"
  "nextEntityAliasId (addMention r s) = nextEntityAliasId s"
  "nextEntityId (addMention r s) = nextEntityId s"
  "nextEntityMentionId (addMention r s) = Suc (nextEntityMentionId s)"
  "nextEntityCandidateLinkId (addMention r s) = nextEntityCandidateLinkId s"
  by (simp_all add: addMention_def)

lemma addCanonical_fields [simp]:
  "canonicalEntities (addCanonical c s) = canonicalEntities s @ [c]"
  "entityAliases (addCanonical c s) = entityAliases s"
  "entities (addCanonical c s) = entities s"
  "entityMentions (addCanonical c s) = entityMentions s"
  "entityCandidateLinks (addCanonical c s) = entityCandidateLinks s"
  "files (addCanonical c s) = files s"
  "nextCanonicalEntityId (addCanonical c s) = Suc (nextCanonicalEntityId s)"
  "nextEntityAliasId (addCanonical c s) = nextEntityAliasId s"
  "nextEntityId (addCanonical c s) = nextEntityId s"
  "nextEntityMentionId (addCanonical c s) = nextEntityMentionId s"
  "nextEntityCandidateLinkId (addCanonical c s) = nextEntityCandidateLinkId s"
  by (simp_all add: addCanonical_def)

lemma addAliases_Nil [simp]: "addAliases [] s = s"
  by (simp add: addAliases_def)

lemma addEntities_Nil [simp]: "addEntities [] s = s"
  by (simp add: addEntities_def)

lemma addAliases_addAliases [simp]: "addAliases b (addAliases a s) = addAliases (a @ b) s"
  by (simp add: addAliases_def add.assoc)









lemma storeInvariant_cong:
  "canonicalEntities s' = canonicalEntities s \<Longrightarrow> entityAliases s' = entityAliases s \<Longrightarrow>
   nextCanonicalEntityId s' = nextCanonicalEntityId s \<Longrightarrow>
   storeInvariant s' = storeInvariant s"
  by (simp add: storeInvariant_def)

lemma storeInvariant_addEntities [simp]: "storeInvariant (addEntities e s) = storeInvariant s"
  by (rule storeInvariant_cong) simp_all

lemma storeInvariant_addMention [simp]: "storeInvariant (addMention r s) = storeInvariant s"
  by (rule storeInvariant_cong) simp_all

lemma storeInvariant_addCanonical:
  "storeInvariant s \<Longrightarrow> ce_id c = nextCanonicalEntityId s \<Longrightarrow> storeInvariant (addCanonical c s)"
  by (fastforce simp: storeInvariant_def)

lemma storeInvariant_addAliases:
  assumes "storeInvariant s"
    and "\<exists>c \<in> set (canonicalEntities s). ce_id c = cid \<and> ce_entityType c = ty"
    and "\<forall>a \<in> set newA. ea_entityType a = ty \<and> ea_canonicalEntityId a = cid \<and>
           \<not> hasAlias s cid (ea_aliasNormalized a)"
    and "distinct (map ea_aliasNormalized newA)"
  shows "storeInvariant (addAliases newA s)"
proof -
  have d1: "distinct (map (\<lambda>a. (ea_canonicalEntityId a, ea_aliasNormalized a)) newA)"
    using assms(4) by (simp add: distinct_map inj_on_def)
  have d2: "(\<lambda>a. (ea_canonicalEntityId a, ea_aliasNormalized a)) ` set (entityAliases s) \<inter>
            (\<lambda>a. (ea_canonicalEntityId a, ea_aliasNormalized a)) ` set newA = {}"
    using assms(3) by (auto simp: hasAlias_def)
  show ?thesis
    using assms(1,2,3) d1 d2 unfolding storeInvariant_def by (simp add: ball_Un)
qed


lemma addLinks_fields [simp]:
  "canonicalEntities (addLinks a s) = canonicalEntities s"
  "entityAliases (addLinks a s) = entityAliases s"
  "entities (addLinks a s) = entities s"
  "entityMentions (addLinks a s) = entityMentions s"
  "entityCandidateLinks (addLinks a s) = entityCandidateLinks s @ a"
  "files (addLinks a s) = files s"
  "nextCanonicalEntityId (addLinks a s) = nextCanonicalEntityId s"
  by (simp_all add: addLinks_def)

lemma addLinks_Nil [simp]: "addLinks [] s = s"
  by (simp add: addLinks_def)

lemma addLinks_addLinks [simp]: "addLinks b (addLinks a s) = addLinks (a @ b) s"
  by (simp add: addLinks_def add.assoc)

lemma storeInvariant_addLinks [simp]: "storeInvariant (addLinks l s) = storeInvariant s"
  by (rule storeInvariant_cong) simp_all


lemma newCanonical_fields [simp]:
  "ce_id (newCanonical i m mt) = i"
  "ce_entityType (newCanonical i m mt) = entityType m"
  "ce_canonicalText (newCanonical i m mt) = mentionText m"
  "ce_canonicalNormalized (newCanonical i m mt) = mentionNormalized m"
  "ce_meta (newCanonical i m mt) = mt"
  by (simp_all add: newCanonical_def)

lemma fileExists_add [simp]:
  "fileExists (addCanonical c s) fid = fileExists s fid"
  "fileExists (addAliases a s) fid = fileExists s fid"
  "fileExists (addEntities e s) fid = fileExists s fid"
  "fileExists (addMention r s) fid = fileExists s fid"
  "fileExists (addLinks l s) fid = fileExists s fid"
  by (simp_all add: fileExists_def)

lemma hasAlias_frame [simp]:
  "hasAlias (addCanonical c s) = hasAlias s"
  "hasAlias (addEntities e s) = hasAlias s"
  "hasAlias (addMention r s) = hasAlias s"
  "hasAlias (addLinks l s) = hasAlias s"
  by (simp_all add: hasAlias_def fun_eq_iff)

lemma invariant_fresh_alias:
  "storeInvariant s \<Longrightarrow> \<not> hasAlias s (nextCanonicalEntityId s) x"
  by (fastforce simp: storeInvariant_def hasAlias_def)




lemma branchEffect_invariant:
  assumes "branchEffect fid m can s s'" and "storeInvariant s"
    and "can \<in> set (canonicalEntities s)" and "ce_entityType can = entityType m"
  shows "storeInvariant s'"
proof -
  from assms(1) obtain aid newA newE eid where
    s': "s' = addMention (mentionRecord (nextEntityMentionId s) fid eid (ce_id can) aid m)
               (addEntities newE (addAliases newA s))"
    and p: "\<forall>a \<in> set newA. ea_entityType a = entityType m \<and> ea_canonicalEntityId a = ce_id can \<and>
            ea_aliasText a = mentionText m \<and>
            ea_aliasNormalized a \<in>
              set (mentionNormalized m # buildKeyFingerprints (entityType m) (mentionText m)) \<and>
            \<not> hasAlias s (ce_id can) (ea_aliasNormalized a)"
    and d: "distinct (map ea_aliasNormalized newA)"
    unfolding branchEffect_def by blast
  have c: "\<exists>c \<in> set (canonicalEntities s). ce_id c = ce_id can \<and> ce_entityType c = entityType m"
    using assms(3,4) by blast
  have "storeInvariant (addAliases newA s)"
    by (rule storeInvariant_addAliases[OF assms(2) c _ d]) (use p in blast)
  then show ?thesis by (simp add: s')
qed









section \<open>Properties of the resolution engine\<close>

lemma twoJohnSmithsStore_invariant: "storeInvariant twoJohnSmithsStore"
  by code_simp

text \<open>
  C4, at a database the schema admits (\<open>twoJohnSmithsStore_invariant\<close>)
  where the claim asks for two candidate links and the code writes none.
  The mention "John Smith" finds entities 1 and 2 by the exact alias and entity 1 again by
  the fingerprint "smith"; the decision is ambiguous; the loop over the candidates inserts
  a link for entity 1, one for entity 2 and a second one for entity 1, which the unique
  index on (mention, candidate) rejects, so the resolution throws.
\<close>

theorem ambiguous_links_unique_violation:
  "map ac_canonicalEntityId
     (findAliasCandidates ''John Smith'' (normalizeMention ''John Smith'') PERSON
        twoJohnSmithsStore) = [1, 2, 1] \<and>
   decide (findAliasCandidates ''John Smith'' (normalizeMention ''John Smith'') PERSON
        twoJohnSmithsStore) = DecideAmbiguous \<and>
   resolveMention 1 (mentionRow PERSON ''John Smith'') twoJohnSmithsStore = Inl UniqueViolation"
  by code_simp

text \<open>
  C2, as stated, fails when the first resolution was ambiguous among exact matches: the
  placeholder it creates carries the mention's alias too, so the second resolution finds
  three exact matches and creates another placeholder.
\<close>

theorem resolve_twice_ambiguous_differs:
  "resolveTwice 1 (mentionRow PERSON ''Smith'') twoSmithsStore = Some (Some 3, Some 4)"
  by code_simp

section \<open>Properties of the ingestion pipeline\<close>

text \<open>
  C6, as stated, fails: two mentions that agree on entity type, normalised text and position
  are both kept when their lowercased texts differ.
\<close>

theorem dedupe_keeps_same_span:
  "entityType mrSmithAt10 = entityType smithAt10 \<and>
   mentionNormalized mrSmithAt10 = mentionNormalized smithAt10 \<and>
   mentionPosition mrSmithAt10 = mentionPosition smithAt10 \<and>
   uniqMentions [mrSmithAt10, smithAt10] = [mrSmithAt10, smithAt10]"
  by code_simp

subsection \<open>The deduplication key\<close>

lemma replaceOthers_alphabet: "c \<in> set (replaceOthers s) \<Longrightarrow> isLowerAlnumOrSpace c"
  using isSpace_space by (auto simp: replaceOthers_def isLowerAlnumOrSpace_def)

lemma collapseSpaces_subset: "set (collapseSpaces s) \<subseteq> insert (CHR '' '') (set s)"
  by (induction s rule: collapseSpaces.induct) (auto dest: set_dropWhileD)

lemma normalize_alphabet: "c \<in> set (normalizeMention t) \<Longrightarrow> isLowerAlnumOrSpace c"
proof -
  assume "c \<in> set (normalizeMention t)"
  then have "c \<in> set (collapseSpaces (replaceOthers (replaceHonorifics None (toLowerCase t))))"
    using set_trim by (auto simp: normalizeMention_def Let_def)
  then have "c = CHR '' '' \<or> c \<in> set (replaceOthers (replaceHonorifics None (toLowerCase t)))"
    using collapseSpaces_subset by blast
  then show ?thesis using replaceOthers_alphabet isSpace_space
    by (auto simp: isLowerAlnumOrSpace_def)
qed

lemma bar_code: "code (CHR ''|'') = 124"
  by (simp add: code_def)

lemma normalize_no_bar: "CHR ''|'' \<notin> set (normalizeMention t)"
  using normalize_alphabet[of "CHR ''|''" t]
  by (auto simp: isLowerAlnumOrSpace_def isSpace_def bar_code)

lemma showNat_no_bar: "CHR ''|'' \<notin> set (showNat n)"
  using showNat_digits[of "CHR ''|''" n] by (auto simp: bar_code)

lemma showNat_no_minus: "showNat n \<noteq> ''-1''"
proof
  assume "showNat n = ''-1''"
  then have "CHR ''-'' \<in> set (showNat n)" by simp
  then show False using showNat_digits[of "CHR ''-''" n] by (simp add: code_def)
qed

lemma unsplit_at:
  "d \<notin> set a \<Longrightarrow> d \<notin> set a' \<Longrightarrow> a @ d # b = a' @ d # b' \<Longrightarrow> a = a' \<and> b = b'"
proof (induction a arbitrary: a')
  case Nil
  then show ?case by (cases a') auto
next
  case (Cons x xs)
  then show ?case by (cases a') auto
qed

lemma showPosition_inj: "showPosition p = showPosition q \<Longrightarrow> p = q"
  using showNat_no_minus showNat_inj
  by (auto simp: showPosition_def split: option.splits)

lemma showPosition_no_bar: "CHR ''|'' \<notin> set (showPosition p)"
  using showNat_no_bar by (auto simp: showPosition_def split: option.splits)

lemma showEntityType_inj: "showEntityType a = showEntityType b \<Longrightarrow> a = b"
  by (cases a; cases b) (simp_all add: showEntityType_def)

lemma showEntityType_no_bar: "CHR ''|'' \<notin> set (showEntityType a)"
  by (cases a) (simp_all add: showEntityType_def)

lemma mentionKey_alt:
  "mentionKey m = showEntityType (entityType m) @ CHR ''|'' # (mentionNormalized m @
      CHR ''|'' # (showPosition (mentionPosition m) @ CHR ''|'' # toLowerCase (mentionText m)))"
  by (simp add: mentionKey_def showPosition_def)

lemma mentionKey_eq_iff:
  assumes "CHR ''|'' \<notin> set (mentionNormalized a)" and "CHR ''|'' \<notin> set (mentionNormalized b)"
  shows "mentionKey a = mentionKey b \<longleftrightarrow> sameKeyFields a b"
proof
  assume k: "mentionKey a = mentionKey b"
  from unsplit_at[OF showEntityType_no_bar showEntityType_no_bar k[unfolded mentionKey_alt]]
  have t: "showEntityType (entityType a) = showEntityType (entityType b)"
    and r1: "mentionNormalized a @ CHR ''|'' # (showPosition (mentionPosition a) @ CHR ''|'' # toLowerCase (mentionText a))
       = mentionNormalized b @ CHR ''|'' # (showPosition (mentionPosition b) @ CHR ''|'' # toLowerCase (mentionText b))"
    by simp_all
  from unsplit_at[OF assms r1]
  have n: "mentionNormalized a = mentionNormalized b"
    and r2: "showPosition (mentionPosition a) @ CHR ''|'' # toLowerCase (mentionText a)
       = showPosition (mentionPosition b) @ CHR ''|'' # toLowerCase (mentionText b)"
    by simp_all
  from unsplit_at[OF showPosition_no_bar showPosition_no_bar r2]
  have p: "showPosition (mentionPosition a) = showPosition (mentionPosition b)"
    and l: "toLowerCase (mentionText a) = toLowerCase (mentionText b)"
    by simp_all
  show "sameKeyFields a b"
    using showEntityType_inj[OF t] n showPosition_inj[OF p] l by (simp add: sameKeyFields_def)
next
  assume "sameKeyFields a b"
  then show "mentionKey a = mentionKey b" by (simp add: sameKeyFields_def mentionKey_def)
qed

lemma dedupeMentions_inv:
  assumes "set seen = mentionKey ` set uniq" and "distinct (map mentionKey uniq)"
    and "dedupeMentions ms (uniq, seen) = (uniq', seen')"
  shows "set seen' = mentionKey ` set uniq' \<and> distinct (map mentionKey uniq') \<and>
         mentionKey ` set uniq' = mentionKey ` (set uniq \<union> set ms) \<and>
         set uniq' \<subseteq> set uniq \<union> set ms"
  using assms
proof (induction ms arbitrary: uniq seen)
  case Nil
  then show ?case by simp
next
  case (Cons m ms)
  show ?case
  proof (cases "mentionKey m \<in> set seen")
    case True
    then have d: "dedupeMentions ms (uniq, seen) = (uniq', seen')" using Cons.prems(3) by simp
    from Cons.IH[OF Cons.prems(1,2) d] True Cons.prems(1) show ?thesis by auto
  next
    case False
    then have d: "dedupeMentions ms (uniq @ [m], seen @ [mentionKey m]) = (uniq', seen')"
      using Cons.prems(3) by (simp add: setAdd_def)
    have i1: "set (seen @ [mentionKey m]) = mentionKey ` set (uniq @ [m])"
      using Cons.prems(1) by auto
    have i2: "distinct (map mentionKey (uniq @ [m]))"
      using Cons.prems(1,2) False by auto
    from Cons.IH[OF i1 i2 d] show ?thesis by auto
  qed
qed

lemma uniqMentions_keys:
  "distinct (map mentionKey (uniqMentions ms)) \<and>
   mentionKey ` set (uniqMentions ms) = mentionKey ` set ms \<and>
   set (uniqMentions ms) \<subseteq> set ms"
proof -
  obtain u s where d: "dedupeMentions ms ([], []) = (u, s)"
    by (cases "dedupeMentions ms ([], [])")
  from dedupeMentions_inv[OF _ _ d] show ?thesis by (simp add: uniqMentions_def d)
qed

lemma filter_single:
  "distinct (map f xs) \<Longrightarrow> y \<in> f ` set xs \<Longrightarrow> length (filter (\<lambda>x. f x = y) xs) = 1"
proof (induction xs)
  case Nil
  then show ?case by simp
next
  case (Cons x xs)
  show ?case
  proof (cases "f x = y")
    case True
    have "f x \<notin> f ` set xs" using Cons.prems(1) by simp
    then have "\<forall>z \<in> set xs. f z \<noteq> y" using True by blast
    then have "filter (\<lambda>x. f x = y) xs = []" by (simp add: filter_empty_conv)
    then show ?thesis using True by simp
  next
    case False
    then show ?thesis using Cons by auto
  qed
qed

text \<open>
  C6, as the code has it. The key has four parts: entity type, normalised text, position
  (or -1) and the lowercased mention text. Of the mentions the pipeline builds, the
  deduplicated list keeps, for every raw mention, exactly one mention that agrees with it on
  these four parts, and nothing that was not a raw mention.
\<close>

theorem uniqMentions_by_four_fields:
  assumes "\<forall>m \<in> set ms. mentionNormalized m = normalizeMention (mentionText m)"
  shows "set (uniqMentions ms) \<subseteq> set ms \<and>
         (\<forall>a \<in> set ms. length (filter (sameKeyFields a) (uniqMentions ms)) = 1)"
proof -
  have nb: "\<And>m. m \<in> set ms \<Longrightarrow> CHR ''|'' \<notin> set (mentionNormalized m)"
    using assms normalize_no_bar by simp
  have k: "distinct (map mentionKey (uniqMentions ms))"
    "mentionKey ` set (uniqMentions ms) = mentionKey ` set ms"
    "set (uniqMentions ms) \<subseteq> set ms"
    using uniqMentions_keys[of ms] by simp_all
  have "length (filter (sameKeyFields a) (uniqMentions ms)) = 1" if a: "a \<in> set ms" for a
  proof -
    have "filter (sameKeyFields a) (uniqMentions ms)
        = filter (\<lambda>u. mentionKey u = mentionKey a) (uniqMentions ms)"
    proof (rule filter_cong[OF refl])
      fix u assume "u \<in> set (uniqMentions ms)"
      then have "u \<in> set ms" using k(3) by blast
      then show "sameKeyFields a u = (mentionKey u = mentionKey a)"
        using mentionKey_eq_iff[OF nb[OF a] nb[of u]] by auto
    qed
    moreover have "mentionKey a \<in> mentionKey ` set (uniqMentions ms)" using a k(2) by blast
    ultimately show ?thesis using filter_single[OF k(1)] by simp
  qed
  then show ?thesis using k(3) by blast
qed

theorem uniqMentions_by_four_fields_witness:
  "sameKeyFields smithAt10 smithAt10Again \<and>
   length (filter (sameKeyFields smithAt10Again)
     (uniqMentions [mrSmithAt10, smithAt10, smithAt10Again])) = 1"
proof -
  have h: "\<forall>m \<in> set [mrSmithAt10, smithAt10, smithAt10Again].
      mentionNormalized m = normalizeMention (mentionText m)"
    by (simp add: mrSmithAt10_def smithAt10_def smithAt10Again_def)
  have s: "sameKeyFields smithAt10 smithAt10Again" by code_simp
  show ?thesis using h s uniqMentions_by_four_fields[OF h] by simp
qed

section \<open>The decision policy\<close>










end
